theory Spec2Isabelle
  imports Complex_Main
begin

section \<open>Numeric arrays\<close>

text \<open>
  The repository computes on numpy arrays of 64-bit floats. They are modelled over the
  reals: a one-dimensional array is a \<open>real list\<close>, a two-dimensional array carries its
  shape next to its rows, as numpy does (an array of shape \<open>(0, p)\<close> has no row and still
  \<open>p\<close> columns). Rounding is not modelled. Every exception the modelled code can raise is
  a value of \<open>error\<close>.
\<close>

datatype error = ValueError | IndexError | FileNotFoundError | NonFinite | Raised string

type_synonym array = "real list"

record ndarray2 =
  shape :: "nat \<times> nat"
  cells :: "real list list"

text \<open>\<^verbatim>\<open>np.ones((N, p))\<close>\<close>

definition np_ones :: "nat \<Rightarrow> nat \<Rightarrow> ndarray2" where
  "np_ones N p = \<lparr>shape = (N, p), cells = replicate N (replicate p 1)\<rparr>"

text \<open>
  An elementwise binary operation on two one-dimensional arrays, with numpy's broadcasting:
  equal lengths combine index by index, an array of length one is stretched, anything else
  raises \<^verbatim>\<open>ValueError\<close>.
\<close>

definition broadcast2 :: "(real \<Rightarrow> real \<Rightarrow> real) \<Rightarrow> array \<Rightarrow> array \<Rightarrow> error + array" where
  "broadcast2 f a b =
     (if length a = length b then Inr (map2 f a b)
      else if length a = 1 then Inr (map (\<lambda>v. f (hd a) v) b)
      else if length b = 1 then Inr (map (\<lambda>u. f u (hd b)) a)
      else Inl ValueError)"

text \<open>\<^verbatim>\<open>a ** k\<close> for an array \<open>a\<close> and a non-negative Python integer \<open>k\<close>.\<close>

definition arr_pow :: "array \<Rightarrow> nat \<Rightarrow> array" where
  "arr_pow a k = map (\<lambda>u. u ^ k) a"

text \<open>
  The column assignment \<^verbatim>\<open>X[:, c] = v\<close>: the column index must exist, and \<open>v\<close> must have
  one entry per row or be of length one (then it is stretched).
\<close>

definition set_column :: "ndarray2 \<Rightarrow> nat \<Rightarrow> array \<Rightarrow> error + ndarray2" where
  "set_column X c v =
     (if snd (shape X) \<le> c then Inl IndexError
      else if length v = fst (shape X)
        then Inr (X\<lparr>cells := map2 (\<lambda>row u. row[c := u]) (cells X) v\<rparr>)
      else if length v = 1
        then Inr (X\<lparr>cells := map (\<lambda>row. row[c := hd v]) (cells X)\<rparr>)
      else Inl ValueError)"

section \<open>The design matrix of \<^verbatim>\<open>FrankeData\<close>\<close>

text \<open>
  \<^verbatim>\<open>get_number_of_parameters\<close> is \<^verbatim>\<open>int((degree + 1) * (degree + 2) / 2)\<close>. The product
  of two consecutive integers is even and not negative, so the float division is exact and
  \<^verbatim>\<open>int\<close> truncates nothing; \<open>degree\<close> is a Python integer.
\<close>

definition get_number_of_parameters :: "int \<Rightarrow> int" where
  "get_number_of_parameters degree = ((degree + 1) * (degree + 2)) div 2"

text \<open>The first column of level \<open>i\<close>: \<^verbatim>\<open>q = int((i + 1) * (i + 2) / 2)\<close>.\<close>

definition start_column :: "nat \<Rightarrow> nat" where
  "start_column i = ((i + 1) * (i + 2)) div 2"

text \<open>
  The exponents of \<^verbatim>\<open>x ** (i - j + 1) * y ** j\<close>. The subtraction is Python's, on integers;
  in the loop \<open>j \<le> i + 1\<close>, so the exponent of \<open>x\<close> is never negative.
\<close>

definition x_exponent :: "nat \<Rightarrow> nat \<Rightarrow> nat" where
  "x_exponent i j = nat (int i - int j + 1)"

definition y_exponent :: "nat \<Rightarrow> nat \<Rightarrow> nat" where
  "y_exponent i j = j"

text \<open>The inner loop \<^verbatim>\<open>for j in range(i + 2)\<close>, over the values of \<open>j\<close> still to come.\<close>

fun inner_loop :: "array \<Rightarrow> array \<Rightarrow> nat \<Rightarrow> nat \<Rightarrow> nat list \<Rightarrow> ndarray2 \<Rightarrow> error + ndarray2" where
  "inner_loop x y i q [] X = Inr X"
| "inner_loop x y i q (j # js) X =
     (case broadcast2 (*) (arr_pow x (x_exponent i j)) (arr_pow y (y_exponent i j)) of
        Inl e \<Rightarrow> Inl e
      | Inr v \<Rightarrow>
          (case set_column X (q + j) v of
             Inl e \<Rightarrow> Inl e
           | Inr X' \<Rightarrow> inner_loop x y i q js X'))"

text \<open>The outer loop \<^verbatim>\<open>for i in range(self.degree)\<close>, over the values of \<open>i\<close> still to come.\<close>

fun outer_loop :: "array \<Rightarrow> array \<Rightarrow> nat list \<Rightarrow> ndarray2 \<Rightarrow> error + ndarray2" where
  "outer_loop x y [] X = Inr X"
| "outer_loop x y (i # is) X =
     (case inner_loop x y i (start_column i) [0..<i + 2] X of
        Inl e \<Rightarrow> Inl e
      | Inr X' \<Rightarrow> outer_loop x y is X')"

text \<open>
  \<^verbatim>\<open>generate_design_matrix\<close>, with \<^verbatim>\<open>self.degree\<close> as an argument. \<^verbatim>\<open>range\<close> of a negative
  integer is empty, which \<open>nat\<close> gives.
\<close>

definition generate_design_matrix :: "int \<Rightarrow> array \<Rightarrow> array \<Rightarrow> error + ndarray2" where
  "generate_design_matrix degree x y =
     (let N = length x;
          p = get_number_of_parameters degree;
          X = np_ones N (nat p)
      in outer_loop x y [0..<nat degree] X)"

text \<open>The entry in row \<open>r\<close> and column \<open>c\<close>.\<close>

definition entry :: "ndarray2 \<Rightarrow> nat \<Rightarrow> nat \<Rightarrow> real" where
  "entry X r c = cells X ! r ! c"

text \<open>A two-dimensional array whose rows agree with its shape.\<close>

definition well_shaped :: "ndarray2 \<Rightarrow> nat \<Rightarrow> nat \<Rightarrow> bool" where
  "well_shaped X N p \<longleftrightarrow>
     shape X = (N, p) \<and> length (cells X) = N \<and> list_all (\<lambda>row. length row = p) (cells X)"

section \<open>The Franke function\<close>

text \<open>
  \<^verbatim>\<open>FrankeFunction\<close> is a numpy expression of four terms. At one point \<open>(x, y)\<close> it computes
  the value below, term by term as the source writes them; on arrays every operation is
  elementwise, and the \<open>x\<close> part and the \<open>y\<close> part of each exponent meet in one broadcast.
\<close>

definition FrankeFunction_point :: "real \<Rightarrow> real \<Rightarrow> real" where
  "FrankeFunction_point x y =
     (let term1 = 0.75 * exp (- (0.25 * (9 * x - 2) ^ 2) - 0.25 * ((9 * y - 2) ^ 2));
          term2 = 0.75 * exp (- ((9 * x + 1) ^ 2) / 49.0 - 0.1 * (9 * y + 1));
          term3 = 0.5 * exp (- ((9 * x - 7) ^ 2) / 4.0 - 0.25 * ((9 * y - 3) ^ 2));
          term4 = - 0.2 * exp (- ((9 * x - 4) ^ 2) - (9 * y - 7) ^ 2)
      in term1 + term2 + term3 + term4)"

definition FrankeFunction :: "array \<Rightarrow> array \<Rightarrow> error + array" where
  "FrankeFunction x y = broadcast2 FrankeFunction_point x y"

text \<open>The formula as the specification prints it, for comparison with the code.\<close>

definition franke_formula :: "real \<Rightarrow> real \<Rightarrow> real" where
  "franke_formula x y =
     0.75 * exp (- ((9 * x - 2) ^ 2) / 4 - ((9 * y - 2) ^ 2) / 4)
     + 0.75 * exp (- ((9 * x + 1) ^ 2) / 49 - 0.1 * (9 * y + 1))
     + 0.5 * exp (- ((9 * x - 7) ^ 2) / 4 - ((9 * y - 3) ^ 2) / 4)
     - 0.2 * exp (- ((9 * x - 4) ^ 2) - (9 * y - 7) ^ 2)"

section \<open>The global random source\<close>

text \<open>
  numpy's global generator is state that every sampling call reads and advances. The
  generator itself is outside the repository: it is a parameter \<open>draw\<close>, which for a
  sampler, a count and a generator state returns that many variates and the next state.
  \<open>Uniform01\<close> is the sampler of \<^verbatim>\<open>np.random.rand\<close> (uniform on \<open>[0, 1)\<close>), \<open>Normal loc scale\<close>
  the one of \<^verbatim>\<open>np.random.normal\<close>. The distribution of the variates is numpy's contract
  for the sampler that was asked; the model records which sampler the code asks, with
  which parameters and for how many variates.
\<close>

datatype sampler = Uniform01 | Normal real real

type_synonym 'g draw = "sampler \<Rightarrow> nat \<Rightarrow> 'g \<Rightarrow> real list \<times> 'g"

text \<open>
  What the model needs of numpy's samplers: a request for \<open>n\<close> variates returns \<open>n\<close>
  of them, and the uniform ones lie in \<open>[0, 1)\<close>.
\<close>

definition sampler_contract :: "'g draw \<Rightarrow> bool" where
  "sampler_contract draw \<longleftrightarrow>
     (\<forall>smp n g. length (fst (draw smp n g)) = n) \<and>
     (\<forall>n g. list_all (\<lambda>v. 0 \<le> v \<and> v < 1) (fst (draw Uniform01 n g)))"

text \<open>\<^verbatim>\<open>np.random.rand(n)\<close>; a negative dimension raises.\<close>

definition np_random_rand :: "'g draw \<Rightarrow> int \<Rightarrow> 'g \<Rightarrow> (error + array) \<times> 'g" where
  "np_random_rand draw n g =
     (if n < 0 then (Inl ValueError, g)
      else (case draw Uniform01 (nat n) g of (vs, g') \<Rightarrow> (Inr vs, g')))"

text \<open>\<^verbatim>\<open>np.random.normal(loc, scale, size)\<close>; a negative scale raises.\<close>

definition np_random_normal :: "'g draw \<Rightarrow> real \<Rightarrow> real \<Rightarrow> nat \<Rightarrow> 'g \<Rightarrow> (error + array) \<times> 'g" where
  "np_random_normal draw loc scale size' g =
     (if scale < 0 then (Inl ValueError, g)
      else (case draw (Normal loc scale) size' g of (vs, g') \<Rightarrow> (Inr vs, g')))"

text \<open>A deterministic generator for examples: its state counts the variates drawn.\<close>

definition counter_draw :: "nat draw" where
  "counter_draw smp n k =
     (map (\<lambda>i. case smp of
                 Uniform01 \<Rightarrow> 1 / real (k + i + 2)
               | Normal loc scale \<Rightarrow> loc + scale * (if even (k + i) then 1 else - 1))
        [0..<n],
      k + n)"

section \<open>Noise\<close>

definition DEFAULT_NOISE_LEVEL :: real where
  "DEFAULT_NOISE_LEVEL = 0.2"

text \<open>
  \<^verbatim>\<open>generate_noise(N, noise_level=DEFAULT_NOISE_LEVEL)\<close>: \<open>None\<close> is the call that leaves
  \<open>noise_level\<close> out. \<open>N\<close> is the shape of a one-dimensional array, that is its length.
\<close>

definition generate_noise :: "'g draw \<Rightarrow> nat \<Rightarrow> real option \<Rightarrow> 'g \<Rightarrow> (error + array) \<times> 'g" where
  "generate_noise draw N noise_level g =
     np_random_normal draw 0.0
       (case noise_level of None \<Rightarrow> DEFAULT_NOISE_LEVEL | Some s \<Rightarrow> s) N g"

text \<open>
  \<^verbatim>\<open>NoisyFrankeFunction\<close>: the noise is drawn first, for the shape of \<open>x\<close>, then added to
  the function values.
\<close>

definition NoisyFrankeFunction :: "'g draw \<Rightarrow> array \<Rightarrow> array \<Rightarrow> real \<Rightarrow> 'g \<Rightarrow> (error + array) \<times> 'g" where
  "NoisyFrankeFunction draw x y noise_level g =
     (case generate_noise draw (length x) (Some noise_level) g of
        (Inl e, g') \<Rightarrow> (Inl e, g')
      | (Inr noise, g') \<Rightarrow>
          (case FrankeFunction x y of
             Inl e \<Rightarrow> (Inl e, g')
           | Inr f \<Rightarrow> (broadcast2 (+) f noise, g')))"

section \<open>Rescaling\<close>

text \<open>
  Modelled from the spec: \<^verbatim>\<open>scale_data\<close> is a method of the base class \<^verbatim>\<open>Data\<close>, whose
  module is not among the sources. The specification gives its rule: the outputs are
  mapped by \<open>z / max(z)\<close>. The maximum of an empty array raises in numpy; a maximum of zero
  makes the quotient infinite or undefined, which is no real number and is reported here
  as \<open>NonFinite\<close>.
\<close>

definition scale_data :: "array \<Rightarrow> error + array" where
  "scale_data z =
     (if z = [] then Inl ValueError
      else if Max (set z) = 0 then Inl NonFinite
      else Inr (map (\<lambda>v. v / Max (set z)) z))"

text \<open>Min-max normalisation, which the specification says the rule is not.\<close>

definition min_max_normalise :: "array \<Rightarrow> array" where
  "min_max_normalise z = map (\<lambda>v. (v - Min (set z)) / (Max (set z) - Min (set z))) z"

section \<open>The constructor of \<^verbatim>\<open>FrankeData\<close>\<close>

text \<open>
  The arguments of \<^verbatim>\<open>FrankeData.__init__\<close>, and the values Python gives to those a call
  leaves out.
\<close>

record franke_args =
  arg_N :: int
  arg_degree :: int
  arg_random_noise :: bool
  arg_scale_data :: bool
  arg_test_size :: "real option"
  arg_noise_level :: real

definition default_args :: "int \<Rightarrow> franke_args" where
  "default_args n =
     \<lparr>arg_N = n, arg_degree = 1, arg_random_noise = True, arg_scale_data = True,
      arg_test_size = None, arg_noise_level = DEFAULT_NOISE_LEVEL\<rparr>"

text \<open>
  The object: \<^verbatim>\<open>self.degree\<close>, and what \<^verbatim>\<open>store_data\<close> hands to \<^verbatim>\<open>Data.store_data\<close> (the
  design matrix, the targets, the test size and \<^verbatim>\<open>stratify=False\<close>). What the base class
  does with them is not among the sources.
\<close>

record FrankeData =
  self_degree :: int
  self_X :: ndarray2
  self_z :: array
  self_test_size :: "real option"
  self_stratify :: bool

text \<open>\<^verbatim>\<open>a.reshape(N, p)\<close> of a one-dimensional array, row by row.\<close>

definition reshape2 :: "array \<Rightarrow> nat \<Rightarrow> nat \<Rightarrow> error + ndarray2" where
  "reshape2 a N p =
     (if length a = N * p
      then Inr \<lparr>shape = (N, p), cells = map (\<lambda>r. take p (drop (r * p) a)) [0..<N]\<rparr>
      else Inl ValueError)"

text \<open>\<^verbatim>\<open>X[:, c]\<close>\<close>

definition get_column :: "ndarray2 \<Rightarrow> nat \<Rightarrow> error + array" where
  "get_column X c =
     (if c < snd (shape X) then Inr (map (\<lambda>row. row ! c) (cells X)) else Inl IndexError)"

text \<open>
  The sample points: \<^verbatim>\<open>data = np.random.rand(N * 2).reshape(N, 2)\<close>, \<^verbatim>\<open>x = data[:, 0]\<close>,
  \<^verbatim>\<open>y = data[:, 1]\<close>.
\<close>

definition sample_points :: "'g draw \<Rightarrow> int \<Rightarrow> 'g \<Rightarrow> (error + array \<times> array) \<times> 'g" where
  "sample_points draw n g =
     (case np_random_rand draw (n * 2) g of
        (Inl e, g') \<Rightarrow> (Inl e, g')
      | (Inr vs, g') \<Rightarrow>
          (case reshape2 vs (nat n) 2 of
             Inl e \<Rightarrow> (Inl e, g')
           | Inr data \<Rightarrow>
               (case get_column data 0 of
                  Inl e \<Rightarrow> (Inl e, g')
                | Inr x \<Rightarrow>
                    (case get_column data 1 of
                       Inl e \<Rightarrow> (Inl e, g')
                     | Inr y \<Rightarrow> (Inr (x, y), g')))))"

text \<open>
  \<^verbatim>\<open>store_data\<close>: \<^verbatim>\<open>np.ravel\<close> leaves one-dimensional arrays as they are; the design matrix
  is built and handed on with the targets.
\<close>

definition store_data :: "int \<Rightarrow> array \<Rightarrow> array \<Rightarrow> array \<Rightarrow> real option \<Rightarrow> error + FrankeData" where
  "store_data deg x y z test_size =
     (case generate_design_matrix deg x y of
        Inl e \<Rightarrow> Inl e
      | Inr X \<Rightarrow>
          Inr \<lparr>self_degree = deg, self_X = X, self_z = z, self_test_size = test_size,
               self_stratify = False\<rparr>)"

text \<open>
  \<^verbatim>\<open>FrankeData.__init__\<close>. The inherited \<^verbatim>\<open>scale_data\<close> is the parameter \<open>scale\<close>.
\<close>

definition FrankeData_init ::
  "(array \<Rightarrow> error + array) \<Rightarrow> 'g draw \<Rightarrow> franke_args \<Rightarrow> 'g \<Rightarrow> (error + FrankeData) \<times> 'g" where
  "FrankeData_init scale draw args g =
     (case sample_points draw (arg_N args) g of
        (Inl e, g1) \<Rightarrow> (Inl e, g1)
      | (Inr (x, y), g1) \<Rightarrow>
          (case (if arg_random_noise args
                 then NoisyFrankeFunction draw x y (arg_noise_level args) g1
                 else (FrankeFunction x y, g1)) of
             (Inl e, g2) \<Rightarrow> (Inl e, g2)
           | (Inr z, g2) \<Rightarrow>
               (case (if arg_scale_data args then scale z else Inr z) of
                  Inl e \<Rightarrow> (Inl e, g2)
                | Inr z' \<Rightarrow>
                    (case store_data (arg_degree args) x y z' (arg_test_size args) of
                       Inl e \<Rightarrow> (Inl e, g2)
                     | Inr obj \<Rightarrow> (Inr obj, g2)))))"

section \<open>The result table\<close>

text \<open>
  The files the driver can see: the directories that exist and the content of each file.
  Opening a file for writing needs its directory; other reasons why \<^verbatim>\<open>open\<close> can fail are
  not modelled.
\<close>

record filesystem =
  directories :: "string set"
  files :: "string \<Rightarrow> string option"

definition dirname :: "string \<Rightarrow> string" where
  "dirname path = rev (drop 1 (dropWhile (\<lambda>c. c \<noteq> CHR ''/'') (rev path)))"

text \<open>Python's \<^verbatim>\<open>str\<close> of an integer, which is what an f-string writes for it.\<close>

fun str_nat :: "nat \<Rightarrow> string" where
  "str_nat n =
     (if n < 10 then [''0123456789'' ! n]
      else str_nat (n div 10) @ [''0123456789'' ! (n mod 10)])"

declare str_nat.simps [simp del]

definition str_int :: "int \<Rightarrow> string" where
  "str_int k = (if k < 0 then CHR ''-'' # str_nat (nat (- k)) else str_nat (nat k))"

text \<open>
  One data row of \<^verbatim>\<open>write_to_file\<close>. \<open>str_x\<close> writes a swept value, \<open>fmt\<close> a float; the
  text numpy produces for a float is not modelled, so \<open>fmt\<close> is a parameter.
\<close>

definition table_row ::
  "('a \<Rightarrow> string) \<Rightarrow> (real \<Rightarrow> string) \<Rightarrow> 'a \<Rightarrow> real \<Rightarrow> real \<Rightarrow> real \<Rightarrow> real \<Rightarrow> string" where
  "table_row str_x fmt xi mse_train mse_test bias variance =
     str_x xi @ '','' @ fmt mse_train @ '','' @ fmt mse_test @ '','' @ fmt bias @ '',''
       @ fmt variance @ [CHR ''\<newline>'']"

definition table_header :: "string \<Rightarrow> string" where
  "table_header x_label = x_label @ '',mse_train,mse_test,bias,variance'' @ [CHR ''\<newline>'']"

text \<open>
  The loop \<^verbatim>\<open>for i in range(len(x))\<close> over the indices still to come, with the text written
  so far. An index beyond the end of one of the four lists raises \<^verbatim>\<open>IndexError\<close>; what was
  written before stays in the file.
\<close>

fun write_rows ::
  "('a \<Rightarrow> string) \<Rightarrow> (real \<Rightarrow> string) \<Rightarrow> 'a list \<Rightarrow> real list \<Rightarrow> real list \<Rightarrow> real list \<Rightarrow>
     real list \<Rightarrow> nat list \<Rightarrow> string \<Rightarrow> (error + unit) \<times> string" where
  "write_rows str_x fmt x mses_train mses_test biases variances [] written = (Inr (), written)"
| "write_rows str_x fmt x mses_train mses_test biases variances (i # is) written =
     (if i < length mses_train \<and> i < length mses_test \<and> i < length biases \<and> i < length variances
      then write_rows str_x fmt x mses_train mses_test biases variances is
             (written @ table_row str_x fmt (x ! i) (mses_train ! i) (mses_test ! i)
                          (biases ! i) (variances ! i))
      else (Inl IndexError, written))"

text \<open>
  \<^verbatim>\<open>write_to_file\<close>: mode \<^verbatim>\<open>"w"\<close> creates the file or empties it, and the \<^verbatim>\<open>with\<close> block
  closes it whether or not the body raised.
\<close>

definition write_to_file ::
  "('a \<Rightarrow> string) \<Rightarrow> (real \<Rightarrow> string) \<Rightarrow> filesystem \<Rightarrow> string \<Rightarrow> 'a list \<Rightarrow> real list \<Rightarrow>
     real list \<Rightarrow> real list \<Rightarrow> real list \<Rightarrow> string \<Rightarrow> (error + unit) \<times> filesystem" where
  "write_to_file str_x fmt fs filename x mses_train mses_test biases variances x_label =
     (let path = ''output/data/'' @ filename in
      if dirname path \<notin> directories fs then (Inl FileNotFoundError, fs)
      else (case write_rows str_x fmt x mses_train mses_test biases variances [0..<length x]
                   (table_header x_label) of
              (r, written) \<Rightarrow> (r, fs\<lparr>files := (files fs)(path \<mapsto> written)\<rparr>)))"

section \<open>The sweep over the polynomial degree\<close>

text \<open>
  The module \<^verbatim>\<open>config\<close>, the regressor \<^verbatim>\<open>OrdinaryLeastSquares\<close> and the estimator
  \<^verbatim>\<open>bootstrap_bias_variance\<close> are not among the sources: the configuration is a record,
  the regressor a value \<open>ols\<close>, and the estimator a parameter \<open>bootstrap\<close> that reads and
  advances the generator state and returns the four numbers the driver unpacks as
  \<^verbatim>\<open>bias, variance, mse_train, mse_test\<close>, or raises.
\<close>

record config =
  DATA_SIZE :: int
  BIAS_VARIANCE_TEST_SIZE :: real
  BIAS_VARIANCE_BOOTSTRAP_SIZE :: int

type_synonym estimate = "real \<times> real \<times> real \<times> real"

type_synonym ('r, 'g) estimator = "'r \<Rightarrow> FrankeData \<Rightarrow> int \<Rightarrow> 'g \<Rightarrow> (error + estimate) \<times> 'g"

type_synonym sequences = "real list \<times> real list \<times> real list \<times> real list"

text \<open>
  The loop \<^verbatim>\<open>for degree in degrees\<close> over the degrees still to come; the four lists are
  \<^verbatim>\<open>mses_train, mses_test, biases, variances\<close> in this order.
\<close>

fun sweep_loop ::
  "(array \<Rightarrow> error + array) \<Rightarrow> 'g draw \<Rightarrow> ('r, 'g) estimator \<Rightarrow> 'r \<Rightarrow> config \<Rightarrow> int list \<Rightarrow>
     sequences \<Rightarrow> 'g \<Rightarrow> (error + sequences) \<times> 'g" where
  "sweep_loop scale draw bootstrap ols cfg [] acc g = (Inr acc, g)"
| "sweep_loop scale draw bootstrap ols cfg (d # ds) (mses_train, mses_test, biases, variances) g =
     (case FrankeData_init scale draw
             ((default_args (DATA_SIZE cfg))
                \<lparr>arg_degree := d, arg_test_size := Some (BIAS_VARIANCE_TEST_SIZE cfg)\<rparr>) g of
        (Inl e, g1) \<Rightarrow> (Inl e, g1)
      | (Inr data, g1) \<Rightarrow>
          (case bootstrap ols data (BIAS_VARIANCE_BOOTSTRAP_SIZE cfg) g1 of
             (Inl e, g2) \<Rightarrow> (Inl e, g2)
           | (Inr (bias, variance, mse_train, mse_test), g2) \<Rightarrow>
               sweep_loop scale draw bootstrap ols cfg ds
                 (mses_train @ [mse_train], mses_test @ [mse_test], biases @ [bias],
                  variances @ [variance]) g2))"

text \<open>\<^verbatim>\<open>degrees = list(range(1, 16))\<close>\<close>

definition degrees :: "int list" where
  "degrees = map int [1..<16]"

definition bias_variance_analysis_ols ::
  "(array \<Rightarrow> error + array) \<Rightarrow> 'g draw \<Rightarrow> ('r, 'g) estimator \<Rightarrow> 'r \<Rightarrow> (real \<Rightarrow> string) \<Rightarrow> config \<Rightarrow>
     'g \<Rightarrow> filesystem \<Rightarrow> (error + unit) \<times> 'g \<times> filesystem" where
  "bias_variance_analysis_ols scale draw bootstrap ols fmt cfg g fs =
     (case sweep_loop scale draw bootstrap ols cfg degrees ([], [], [], []) g of
        (Inl e, g') \<Rightarrow> (Inl e, g', fs)
      | (Inr (mses_train, mses_test, biases, variances), g') \<Rightarrow>
          (case write_to_file str_int fmt fs ''bias_variance_ols.csv'' degrees
                  mses_train mses_test biases variances ''degree'' of
             (r, fs') \<Rightarrow> (r, g', fs')))"

text \<open>
  Observing the calls of the estimator. The generator state is paired with a log; the
  estimator, wrapped, appends the degree of the data set it was called with and what it
  returned, and the sampler leaves the log alone. The driver cannot tell the difference: it
  only passes the state on.
\<close>

type_synonym call_log = "(int \<times> (error + estimate)) list"

definition logged :: "('r, 'g) estimator \<Rightarrow> ('r, 'g \<times> call_log) estimator" where
  "logged bootstrap ols data B st =
     (case st of (g, calls) \<Rightarrow>
        (case bootstrap ols data B g of (r, g') \<Rightarrow> (r, (g', calls @ [(self_degree data, r)]))))"

definition lift_draw :: "'g draw \<Rightarrow> ('g \<times> call_log) draw" where
  "lift_draw draw smp n st =
     (case st of (g, calls) \<Rightarrow> (case draw smp n g of (vs, g') \<Rightarrow> (vs, (g', calls))))"

section \<open>A small configuration for examples\<close>

text \<open>
  One sample point per data set, an estimator that answers with the degree of the data set
  as its bias, one that raises at degree three, and a file system with the output
  directory.
\<close>

definition example_config :: config where
  "example_config = \<lparr>DATA_SIZE = 1, BIAS_VARIANCE_TEST_SIZE = 1 / 5, BIAS_VARIANCE_BOOTSTRAP_SIZE = 10\<rparr>"

definition example_estimator :: "(unit, nat) estimator" where
  "example_estimator ols data B k = (Inr (real_of_int (self_degree data), 2, 3, 4), k + 1)"

definition failing_estimator :: "(unit, nat) estimator" where
  "failing_estimator ols data B k =
     (if self_degree data = 3 then (Inl (Raised ''singular matrix''), k + 1)
      else (Inr (real_of_int (self_degree data), 2, 3, 4), k + 1))"

definition example_files :: filesystem where
  "example_files = \<lparr>directories = {''output/data''}, files = Map.empty\<rparr>"

section \<open>Properties of the design matrix\<close>

lemma well_shaped_ones: "well_shaped (np_ones N p) N p"
  by (simp add: well_shaped_def np_ones_def list_all_iff)

lemma entry_ones: "r < N \<Longrightarrow> c < p \<Longrightarrow> entry (np_ones N p) r c = 1"
  by (simp add: entry_def np_ones_def)

lemma set_column_full:
  assumes "well_shaped X N p" "c < p" "length v = N"
  shows "\<exists>X'. set_column X c v = Inr X' \<and> well_shaped X' N p \<and>
           (\<forall>r<N. \<forall>c'<p. entry X' r c' = (if c' = c then v ! r else entry X r c'))"
proof -
  let ?X' = "X\<lparr>cells := map2 (\<lambda>row u. row[c := u]) (cells X) v\<rparr>"
  from assms have sh: "shape X = (N, p)" and len: "length (cells X) = N"
    and rows: "\<forall>row \<in> set (cells X). length row = p"
    by (simp_all add: well_shaped_def list_all_iff)
  from sh assms have eq: "set_column X c v = Inr ?X'"
    by (simp add: set_column_def)
  have ws: "well_shaped ?X' N p"
    using sh len rows assms(3)
    by (auto simp: well_shaped_def list_all_iff dest!: set_zip_leftD)
  have ent: "entry ?X' r c' = (if c' = c then v ! r else entry X r c')"
    if "r < N" "c' < p" for r c'
  proof -
    from that len rows have "length (cells X ! r) = p" by simp
    with that len assms show ?thesis by (simp add: entry_def)
  qed
  from eq ws ent show ?thesis by blast
qed

lemma start_column_Suc: "start_column (Suc i) = start_column i + i + 2"
proof -
  have "(Suc i + 1) * (Suc i + 2) = (i + 1) * (i + 2) + (i + 2) * 2"
    by (simp add: algebra_simps)
  then have "((Suc i + 1) * (Suc i + 2)) div 2 = ((i + 1) * (i + 2)) div 2 + (i + 2)"
    by (simp only: div_mult_self3) simp
  then show ?thesis by (simp add: start_column_def)
qed

lemma start_column_mono: "i \<le> k \<Longrightarrow> start_column i \<le> start_column k"
  by (induction k) (auto simp: start_column_Suc le_Suc_eq)

lemma start_column_less: "i < k \<Longrightarrow> start_column i + i + 2 \<le> start_column k"
  using start_column_mono [of "Suc i" k] by (simp add: start_column_Suc)

lemma group_unique:
  assumes "start_column i + j = start_column i' + j'" "j < i + 2" "j' < i' + 2"
  shows "i = i' \<and> j = j'"
proof -
  have "\<not> i < i'" using start_column_less [of i i'] assms by auto
  moreover have "\<not> i' < i" using start_column_less [of i' i] assms by auto
  ultimately have "i = i'" by simp
  with assms show ?thesis by simp
qed

lemma inner_loop_entries:
  assumes "well_shaped X N p" "length x = N" "length y = N" "\<forall>j\<in>set js. q + j < p"
  shows "\<exists>X'. inner_loop x y i q js X = Inr X' \<and> well_shaped X' N p \<and>
           (\<forall>r<N. \<forall>c<p. entry X' r c =
              (if c \<in> (\<lambda>j. q + j) ` set js
               then (x ! r) ^ x_exponent i (c - q) * (y ! r) ^ y_exponent i (c - q)
               else entry X r c))"
  using assms
proof (induction js arbitrary: X)
  case Nil
  then show ?case by simp
next
  case (Cons j js)
  let ?v = "map2 (*) (arr_pow x (x_exponent i j)) (arr_pow y (y_exponent i j))"
  have bc: "broadcast2 (*) (arr_pow x (x_exponent i j)) (arr_pow y (y_exponent i j)) = Inr ?v"
    using Cons.prems by (simp add: broadcast2_def arr_pow_def)
  have lv: "length ?v = N" using Cons.prems by (simp add: arr_pow_def)
  have vr: "?v ! r = (x ! r) ^ x_exponent i j * (y ! r) ^ y_exponent i j" if "r < N" for r
    using that Cons.prems by (simp add: arr_pow_def)
  from Cons.prems have "q + j < p" by simp
  from set_column_full [OF Cons.prems(1) this lv]
  obtain X1 where X1: "set_column X (q + j) ?v = Inr X1" "well_shaped X1 N p"
    and e1: "\<And>r c. r < N \<Longrightarrow> c < p \<Longrightarrow> entry X1 r c = (if c = q + j then ?v ! r else entry X r c)"
    by blast
  from Cons.prems have "\<forall>j\<in>set js. q + j < p" by simp
  from Cons.IH [OF X1(2) Cons.prems(2,3) this]
  obtain X' where X': "inner_loop x y i q js X1 = Inr X'" "well_shaped X' N p"
    and e2: "\<And>r c. r < N \<Longrightarrow> c < p \<Longrightarrow> entry X' r c =
              (if c \<in> (\<lambda>j. q + j) ` set js
               then (x ! r) ^ x_exponent i (c - q) * (y ! r) ^ y_exponent i (c - q)
               else entry X1 r c)"
    by blast
  have run: "inner_loop x y i q (j # js) X = Inr X'"
    using bc X1(1) X'(1) by simp
  have "entry X' r c =
          (if c \<in> (\<lambda>j. q + j) ` set (j # js)
           then (x ! r) ^ x_exponent i (c - q) * (y ! r) ^ y_exponent i (c - q)
           else entry X r c)" if "r < N" "c < p" for r c
    using e2 [OF that] e1 [OF that] vr [OF that(1)] by auto
  with run X'(2) show ?case by blast
qed


lemma outer_loop_entries:
  assumes "well_shaped X N p" "length x = N" "length y = N"
    "\<forall>i\<in>set is. start_column (Suc i) \<le> p"
  shows "\<exists>X'. outer_loop x y is X = Inr X' \<and> well_shaped X' N p \<and>
           (\<forall>r<N. \<forall>c<p.
              (\<forall>i\<in>set is. \<forall>j<i + 2. c = start_column i + j \<longrightarrow>
                 entry X' r c = (x ! r) ^ x_exponent i j * (y ! r) ^ y_exponent i j) \<and>
              ((\<forall>i\<in>set is. \<forall>j<i + 2. c \<noteq> start_column i + j) \<longrightarrow>
                 entry X' r c = entry X r c))"
  using assms
proof (induction "is" arbitrary: X)
  case Nil
  then show ?case by simp
next
  case (Cons i "is")
  let ?q = "start_column i"
  from Cons.prems(4) have "start_column (Suc i) \<le> p" by simp
  then have inb: "\<forall>j\<in>set [0..<i + 2]. ?q + j < p"
    by (simp add: start_column_Suc)
  from inner_loop_entries [OF Cons.prems(1,2,3) inb, of i]
  obtain X1 where X1: "inner_loop x y i ?q [0..<i + 2] X = Inr X1" "well_shaped X1 N p"
    and e1: "\<And>r c. r < N \<Longrightarrow> c < p \<Longrightarrow> entry X1 r c =
              (if c \<in> (\<lambda>j. ?q + j) ` set [0..<i + 2]
               then (x ! r) ^ x_exponent i (c - ?q) * (y ! r) ^ y_exponent i (c - ?q)
               else entry X r c)"
    by blast
  from Cons.prems(4) have rest: "\<forall>i\<in>set is. start_column (Suc i) \<le> p" by simp
  from Cons.IH [OF X1(2) Cons.prems(2,3) rest]
  obtain X' where X': "outer_loop x y is X1 = Inr X'" "well_shaped X' N p"
    and e2: "\<And>r c. r < N \<Longrightarrow> c < p \<Longrightarrow>
              (\<forall>k\<in>set is. \<forall>j<k + 2. c = start_column k + j \<longrightarrow>
                 entry X' r c = (x ! r) ^ x_exponent k j * (y ! r) ^ y_exponent k j) \<and>
              ((\<forall>k\<in>set is. \<forall>j<k + 2. c \<noteq> start_column k + j) \<longrightarrow>
                 entry X' r c = entry X1 r c)"
    by blast
  have run: "outer_loop x y (i # is) X = Inr X'"
    using X1(1) X'(1) by simp
  have hit: "entry X' r c = (x ! r) ^ x_exponent k j * (y ! r) ^ y_exponent k j"
    if "r < N" "c < p" "k \<in> set (i # is)" "j < k + 2" "c = start_column k + j" for r c k j
  proof (cases "k \<in> set is")
    case True
    with e2 [OF that(1,2)] that(4,5) show ?thesis by blast
  next
    case False
    with that(3) have ki: "k = i" by simp
    have "c \<noteq> start_column k' + j'" if "k' \<in> set is" "j' < k' + 2" for k' j'
    proof
      assume "c = start_column k' + j'"
      with \<open>c = start_column k + j\<close> have "start_column k + j = start_column k' + j'" by simp
      from group_unique [OF this \<open>j < k + 2\<close> \<open>j' < k' + 2\<close>] have "k = k'" by simp
      with False \<open>k' \<in> set is\<close> show False by simp
    qed
    with e2 [OF that(1,2)] have "entry X' r c = entry X1 r c" by blast
    also have "\<dots> = (x ! r) ^ x_exponent i (c - ?q) * (y ! r) ^ y_exponent i (c - ?q)"
      using e1 [OF that(1,2)] that(4,5) ki by auto
    finally show ?thesis using that(5) ki by simp
  qed
  have miss: "entry X' r c = entry X r c"
    if "r < N" "c < p" "\<forall>k\<in>set (i # is). \<forall>j<k + 2. c \<noteq> start_column k + j" for r c
  proof -
    from that(3) have "\<forall>k\<in>set is. \<forall>j<k + 2. c \<noteq> start_column k + j" by simp
    with e2 [OF that(1,2)] have "entry X' r c = entry X1 r c" by blast
    moreover have "c \<notin> (\<lambda>j. ?q + j) ` set [0..<i + 2]"
    proof
      assume "c \<in> (\<lambda>j. ?q + j) ` set [0..<i + 2]"
      then obtain j where "j \<in> set [0..<i + 2]" "c = ?q + j" by blast
      then have "j < i + 2" "c = start_column i + j" by auto
      moreover from that(3) have "\<forall>j<i + 2. c \<noteq> start_column i + j" by simp
      ultimately show False by blast
    qed
    with e1 [OF that(1,2)] have "entry X1 r c = entry X r c" by (simp only: if_False)
    ultimately show ?thesis by simp
  qed
  from run X'(2) hit miss show ?case by blast
qed

lemma number_of_parameters_start_column:
  assumes "0 \<le> degree"
  shows "nat (get_number_of_parameters degree) = start_column (nat degree)"
proof -
  from assms obtain d where d: "degree = int d" by (metis nat_0_le)
  have "(int d + 1) * (int d + 2) = int ((d + 1) * (d + 2))" by (simp add: algebra_simps)
  then have "((int d + 1) * (int d + 2)) div 2 = int (((d + 1) * (d + 2)) div 2)"
    by (simp only: zdiv_int) simp
  with d show ?thesis by (simp add: get_number_of_parameters_def start_column_def)
qed

lemma design_matrix_run:
  assumes "length x = length y" "0 \<le> degree"
  shows "\<exists>X. generate_design_matrix degree x y = Inr X \<and>
           well_shaped X (length x) (start_column (nat degree)) \<and>
           (\<forall>r<length x. \<forall>c<start_column (nat degree).
              (\<forall>i<nat degree. \<forall>j<i + 2. c = start_column i + j \<longrightarrow>
                 entry X r c = (x ! r) ^ x_exponent i j * (y ! r) ^ y_exponent i j) \<and>
              ((\<forall>i<nat degree. \<forall>j<i + 2. c \<noteq> start_column i + j) \<longrightarrow> entry X r c = 1))"
proof -
  let ?N = "length x" and ?p = "start_column (nat degree)"
  have bound: "\<forall>i\<in>set [0..<nat degree]. start_column (Suc i) \<le> ?p"
    by (simp add: start_column_mono)
  from outer_loop_entries [OF well_shaped_ones refl assms(1) [symmetric] bound]
  obtain X' where X': "outer_loop x y [0..<nat degree] (np_ones ?N ?p) = Inr X'"
      "well_shaped X' ?N ?p"
    and e: "\<And>r c. r < ?N \<Longrightarrow> c < ?p \<Longrightarrow>
              (\<forall>i\<in>set [0..<nat degree]. \<forall>j<i + 2. c = start_column i + j \<longrightarrow>
                 entry X' r c = (x ! r) ^ x_exponent i j * (y ! r) ^ y_exponent i j) \<and>
              ((\<forall>i\<in>set [0..<nat degree]. \<forall>j<i + 2. c \<noteq> start_column i + j) \<longrightarrow>
                 entry X' r c = entry (np_ones ?N ?p) r c)"
    by blast
  have run: "generate_design_matrix degree x y = Inr X'"
    using X'(1) assms(2)
    by (simp add: generate_design_matrix_def number_of_parameters_start_column)
  have "(\<forall>i<nat degree. \<forall>j<i + 2. c = start_column i + j \<longrightarrow>
            entry X' r c = (x ! r) ^ x_exponent i j * (y ! r) ^ y_exponent i j) \<and>
        ((\<forall>i<nat degree. \<forall>j<i + 2. c \<noteq> start_column i + j) \<longrightarrow> entry X' r c = 1)"
    if "r < ?N" "c < ?p" for r c
    using e [OF that] entry_ones [OF that] by simp
  with run X'(2) show ?thesis by blast
qed

text \<open>The model evaluated on two sample points at degree two.\<close>

lemma design_matrix_example:
  "generate_design_matrix 2 [2, 3] [5, 7] =
     Inr \<lparr>shape = (2, 6), cells = [[1, 2, 5, 4, 10, 25], [1, 3, 7, 9, 21, 49]]\<rparr>"
  by code_simp

text \<open>
  C1: for arrays \<open>x\<close>, \<open>y\<close> of equal length and a degree of at least one,
  \<^verbatim>\<open>generate_design_matrix\<close> returns a matrix in which, for every level \<open>i\<close> from 0 to
  \<open>degree - 1\<close> with first column \<open>q = (i + 1)(i + 2) / 2\<close> and every \<open>j\<close> from 0 to
  \<open>i + 1\<close>, column \<open>q + j\<close> holds \<open>x^(i - j + 1) * y^j\<close>; every column that no level
  writes keeps the one it started with. Read from left to right, the total degree of the
  columns never decreases, and inside one level the exponent of \<open>x\<close> strictly decreases.
\<close>

theorem design_matrix_triangular_scheme:
  assumes "length x = length y" "1 \<le> degree"
  shows "\<exists>X. generate_design_matrix degree x y = Inr X \<and>
           (\<forall>i<nat degree. \<forall>j\<le>i + 1. \<forall>r<length x.
              ((i + 1) * (i + 2)) div 2 + j < snd (shape X) \<and>
              entry X r (((i + 1) * (i + 2)) div 2 + j) =
                (x ! r) ^ nat (int i - int j + 1) * (y ! r) ^ j) \<and>
           (\<forall>r<length x. \<forall>c<snd (shape X).
              (\<forall>i<nat degree. \<forall>j\<le>i + 1. c \<noteq> ((i + 1) * (i + 2)) div 2 + j) \<longrightarrow>
              entry X r c = 1) \<and>
           (\<forall>i<nat degree. \<forall>i'<nat degree. \<forall>j\<le>i + 1. \<forall>j'\<le>i' + 1.
              ((i + 1) * (i + 2)) div 2 + j < ((i' + 1) * (i' + 2)) div 2 + j' \<longrightarrow>
              x_exponent i j + y_exponent i j \<le> x_exponent i' j' + y_exponent i' j' \<and>
              (i = i' \<longrightarrow> x_exponent i' j' < x_exponent i j))"
proof -
  from assms(2) have d0: "0 \<le> degree" by simp
  let ?p = "start_column (nat degree)"
  from design_matrix_run [OF assms(1) d0]
  obtain X where run: "generate_design_matrix degree x y = Inr X"
    and ws: "well_shaped X (length x) ?p"
    and hit: "\<And>r c i j. r < length x \<Longrightarrow> c < ?p \<Longrightarrow> i < nat degree \<Longrightarrow> j < i + 2 \<Longrightarrow>
                c = start_column i + j \<Longrightarrow>
                entry X r c = (x ! r) ^ x_exponent i j * (y ! r) ^ y_exponent i j"
    and miss: "\<And>r c. r < length x \<Longrightarrow> c < ?p \<Longrightarrow>
                \<forall>i<nat degree. \<forall>j<i + 2. c \<noteq> start_column i + j \<Longrightarrow> entry X r c = 1"
    by blast
  from ws have p: "snd (shape X) = ?p" by (simp add: well_shaped_def)
  have inb: "start_column i + j < ?p" if "i < nat degree" "j \<le> i + 1" for i j
  proof -
    from that(1) have "start_column (Suc i) \<le> ?p" by (simp add: start_column_mono)
    with that(2) show ?thesis by (simp add: start_column_Suc)
  qed
  have scheme: "((i + 1) * (i + 2)) div 2 + j < snd (shape X) \<and>
      entry X r (((i + 1) * (i + 2)) div 2 + j) =
        (x ! r) ^ nat (int i - int j + 1) * (y ! r) ^ j"
    if "i < nat degree" "j \<le> i + 1" "r < length x" for i j r
  proof -
    from that(2) have "j < i + 2" by simp
    from hit [OF that(3) inb [OF that(1,2)] that(1) this refl] inb [OF that(1,2)] p
    show ?thesis by (simp add: start_column_def x_exponent_def y_exponent_def)
  qed
  have ones: "entry X r c = 1"
    if "r < length x" "c < snd (shape X)"
      "\<forall>i<nat degree. \<forall>j\<le>i + 1. c \<noteq> ((i + 1) * (i + 2)) div 2 + j" for r c
  proof -
    from that(3) have "\<forall>i<nat degree. \<forall>j<i + 2. c \<noteq> start_column i + j"
      by (simp add: start_column_def less_Suc_eq_le)
    with miss that(1,2) p show ?thesis by simp
  qed
  have order: "x_exponent i j + y_exponent i j \<le> x_exponent i' j' + y_exponent i' j' \<and>
      (i = i' \<longrightarrow> x_exponent i' j' < x_exponent i j)"
    if "j \<le> i + 1" "j' \<le> i' + 1"
      "((i + 1) * (i + 2)) div 2 + j < ((i' + 1) * (i' + 2)) div 2 + j'" for i i' j j'
  proof -
    from that(3) have lt: "start_column i + j < start_column i' + j'"
      by (simp add: start_column_def)
    have "\<not> i' < i"
    proof
      assume "i' < i"
      from start_column_less [OF this] that(2) lt show False by simp
    qed
    then have "i \<le> i'" by simp
    moreover have "j < j'" if "i = i'" using that lt by simp
    ultimately show ?thesis using that(1,2)
      by (auto simp: x_exponent_def y_exponent_def)
  qed
  from run scheme ones order show ?thesis by blast
qed

theorem design_matrix_triangular_scheme_witness:
  "length [2, 3 :: real] = length [5, 7 :: real] \<and> (1 :: int) \<le> 2 \<and>
   (\<exists>X. generate_design_matrix 2 [2, 3] [5, 7] = Inr X \<and> entry X 1 4 = 3 * 7 \<and>
      entry X 0 5 = 5 ^ 2)"
proof -
  from design_matrix_triangular_scheme [of "[2, 3]" "[5, 7]" 2]
  obtain X where run: "generate_design_matrix 2 [2, 3] [5, 7] = Inr X"
    and scheme: "\<And>i j r. i < 2 \<Longrightarrow> j \<le> i + 1 \<Longrightarrow> r < 2 \<Longrightarrow>
      entry X r (((i + 1) * (i + 2)) div 2 + j) =
        ([2, 3] ! r) ^ nat (int i - int j + 1) * ([5, 7] ! r) ^ j"
    by auto
  have c4: "((1 + 1) * (1 + 2)) div 2 + 1 = (4::nat)"
    and c5: "((1 + 1) * (1 + 2)) div 2 + 2 = (5::nat)" by simp_all
  have "entry X 1 (((1 + 1) * (1 + 2)) div 2 + 1) =
      ([2, 3] ! 1) ^ nat (int 1 - int 1 + 1) * ([5, 7] ! 1) ^ 1"
    by (rule scheme) simp_all
  then have e4: "entry X 1 4 = 3 * 7" unfolding c4 by simp
  have "entry X 0 (((1 + 1) * (1 + 2)) div 2 + 2) =
      ([2, 3] ! 0) ^ nat (int 1 - int 2 + 1) * ([5, 7] ! 0) ^ 2"
    by (rule scheme) simp_all
  then have e5: "entry X 0 5 = 5 ^ 2" unfolding c5 by simp
  note e4 e5
  then show ?thesis using run by simp
qed

lemma start_column_pos: "0 < start_column i"
  using start_column_mono [of 0 i] by (simp add: start_column_def)

text \<open>
  C2: for arrays \<open>x\<close>, \<open>y\<close> of common length \<open>N\<close> and a degree that is not negative,
  the design matrix has shape \<open>(N, (degree + 1)(degree + 2) / 2)\<close>, every row has that many
  entries, and column 0 is 1 in every row; for degree 0 the matrix is the \<open>(N, 1)\<close>
  matrix of ones.
\<close>

theorem design_matrix_shape_and_bias_column:
  assumes "length x = length y" "0 \<le> degree"
  shows "\<exists>X. generate_design_matrix degree x y = Inr X \<and>
           shape X = (length x, nat (((degree + 1) * (degree + 2)) div 2)) \<and>
           length (cells X) = length x \<and>
           (\<forall>r<length x.
              length (cells X ! r) = nat (((degree + 1) * (degree + 2)) div 2) \<and>
              entry X r 0 = 1) \<and>
           (degree = 0 \<longrightarrow> X = \<lparr>shape = (length x, 1), cells = replicate (length x) [1]\<rparr>)"
proof -
  let ?p = "start_column (nat degree)"
  from design_matrix_run [OF assms]
  obtain X where run: "generate_design_matrix degree x y = Inr X"
    and ws: "well_shaped X (length x) ?p"
    and miss: "\<And>r c. r < length x \<Longrightarrow> c < ?p \<Longrightarrow>
                \<forall>i<nat degree. \<forall>j<i + 2. c \<noteq> start_column i + j \<Longrightarrow> entry X r c = 1"
    by blast
  have p: "nat (((degree + 1) * (degree + 2)) div 2) = ?p"
    using number_of_parameters_start_column [OF assms(2)]
    by (simp add: get_number_of_parameters_def)
  from ws have sh: "shape X = (length x, ?p)" and len: "length (cells X) = length x"
    and rows: "\<forall>row\<in>set (cells X). length row = ?p"
    by (simp_all add: well_shaped_def list_all_iff)
  have col0: "length (cells X ! r) = ?p \<and> entry X r 0 = 1" if "r < length x" for r
  proof -
    from that len rows have "length (cells X ! r) = ?p" by simp
    moreover have "\<forall>i<nat degree. \<forall>j<i + 2. 0 \<noteq> start_column i + j"
      using start_column_pos by simp
    with miss [OF that start_column_pos] have "entry X r 0 = 1" by simp
    ultimately show ?thesis by simp
  qed
  have zero: "X = \<lparr>shape = (length x, 1), cells = replicate (length x) [1]\<rparr>" if "degree = 0"
    using run that
    by (simp add: generate_design_matrix_def get_number_of_parameters_def np_ones_def Let_def)
  from run sh len col0 zero show ?thesis unfolding p by blast
qed

theorem design_matrix_shape_and_bias_column_witness:
  "length [2, 3 :: real] = length [5, 7 :: real] \<and> (0 :: int) \<le> 0 \<and>
   generate_design_matrix 0 [2, 3] [5, 7] = Inr \<lparr>shape = (2, 1), cells = [[1], [1]]\<rparr>"
  using design_matrix_shape_and_bias_column [of "[2, 3]" "[5, 7]" 0]
  by (auto simp: eval_nat_numeral)

section \<open>Properties of the Franke function and its noisy variant\<close>

lemma FrankeFunction_point_formula: "FrankeFunction_point x y = franke_formula x y"
proof -
  have t1: "- (0.25 * (9 * x - 2) ^ 2) - 0.25 * ((9 * y - 2) ^ 2)
      = - ((9 * x - 2) ^ 2) / 4 - ((9 * y - 2) ^ 2) / 4" by simp
  have t3: "- ((9 * x - 7) ^ 2) / 4.0 - 0.25 * ((9 * y - 3) ^ 2)
      = - ((9 * x - 7) ^ 2) / 4 - ((9 * y - 3) ^ 2) / 4" by simp
  show ?thesis
    unfolding FrankeFunction_point_def franke_formula_def Let_def t1 t3 by simp
qed

text \<open>
  C3: at every point \<^verbatim>\<open>FrankeFunction\<close> equals the fixed sum of four terms that the
  specification prints (over the reals, which stand for the floats), and on arrays it is
  that sum applied elementwise.
\<close>

theorem FrankeFunction_is_the_fixed_formula:
  "FrankeFunction_point x y = franke_formula x y \<and>
   FrankeFunction xs ys = broadcast2 franke_formula xs ys \<and>
   (length xs = length ys \<longrightarrow> FrankeFunction xs ys = Inr (map2 franke_formula xs ys))"
proof -
  have "FrankeFunction_point = franke_formula"
    by (intro ext) (rule FrankeFunction_point_formula)
  then show ?thesis
    by (simp add: FrankeFunction_def broadcast2_def)
qed

theorem FrankeFunction_is_the_fixed_formula_witness:
  "FrankeFunction [0, 1] [1, 0] = Inr [franke_formula 0 1, franke_formula 1 0]"
  using FrankeFunction_is_the_fixed_formula [of 0 0 "[0, 1]" "[1, 0]"] by (simp add: broadcast2_def)

lemma counter_draw_contract: "sampler_contract counter_draw"
  by (simp add: sampler_contract_def counter_draw_def list_all_iff)

lemma generate_noise_run:
  assumes "0 \<le> sigma"
  shows "generate_noise draw n (Some sigma) g =
           (Inr (fst (draw (Normal 0 sigma) n g)), snd (draw (Normal 0 sigma) n g))"
  using assms by (simp add: generate_noise_def np_random_normal_def split: prod.splits)

lemma NoisyFrankeFunction_run:
  assumes "sampler_contract draw" "0 \<le> sigma" "length x = length y"
  shows "NoisyFrankeFunction draw x y sigma g =
           (Inr (map2 (+) (map2 FrankeFunction_point x y) (fst (draw (Normal 0 sigma) (length x) g))),
            snd (draw (Normal 0 sigma) (length x) g))"
proof -
  from assms(1) have "length (fst (draw (Normal 0 sigma) (length x) g)) = length x"
    by (simp add: sampler_contract_def)
  with assms(3) show ?thesis
    by (simp add: NoisyFrankeFunction_def generate_noise_run [OF assms(2)] FrankeFunction_def
        broadcast2_def)
qed

text \<open>
  C4: for a noise level that is not negative, \<^verbatim>\<open>NoisyFrankeFunction\<close> returns the values of
  \<^verbatim>\<open>FrankeFunction\<close> plus, elementwise, a noise array of the shape of \<open>x\<close>; the noise is
  one request to the normal sampler with mean 0 and standard deviation \<open>sigma\<close> for one
  variate per element; the noise level used when none is given is 0.2.
\<close>

theorem NoisyFrankeFunction_adds_normal_noise:
  assumes "sampler_contract draw" "0 \<le> sigma" "length x = length y"
  shows "\<exists>f noise g'.
           FrankeFunction x y = Inr f \<and>
           draw (Normal 0 sigma) (length x) g = (noise, g') \<and>
           length noise = length x \<and>
           NoisyFrankeFunction draw x y sigma g = (Inr (map2 (+) f noise), g') \<and>
           length (map2 (+) f noise) = length x \<and>
           (\<forall>i<length x. map2 (+) f noise ! i = FrankeFunction_point (x ! i) (y ! i) + noise ! i) \<and>
           generate_noise draw (length x) None g = generate_noise draw (length x) (Some 0.2) g \<and>
           arg_noise_level (default_args n) = 0.2"
proof -
  let ?f = "map2 FrankeFunction_point x y"
  let ?noise = "fst (draw (Normal 0 sigma) (length x) g)"
  let ?g' = "snd (draw (Normal 0 sigma) (length x) g)"
  have f: "FrankeFunction x y = Inr ?f"
    using assms(3) by (simp add: FrankeFunction_def broadcast2_def)
  have d: "draw (Normal 0 sigma) (length x) g = (?noise, ?g')" by simp
  from assms(1) have len: "length ?noise = length x"
    by (simp add: sampler_contract_def)
  have run: "NoisyFrankeFunction draw x y sigma g = (Inr (map2 (+) ?f ?noise), ?g')"
    by (rule NoisyFrankeFunction_run [OF assms])
  have len2: "length (map2 (+) ?f ?noise) = length x"
    using len assms(3) by simp
  have pt: "\<forall>i<length x. map2 (+) ?f ?noise ! i = FrankeFunction_point (x ! i) (y ! i) + ?noise ! i"
    using len assms(3) by simp
  have dflt: "generate_noise draw (length x) None g = generate_noise draw (length x) (Some 0.2) g"
    by (simp add: generate_noise_def DEFAULT_NOISE_LEVEL_def)
  have dflt2: "arg_noise_level (default_args n) = 0.2"
    by (simp add: default_args_def DEFAULT_NOISE_LEVEL_def)
  from f d len run len2 pt dflt dflt2 show ?thesis by blast
qed

theorem NoisyFrankeFunction_adds_normal_noise_witness:
  "sampler_contract counter_draw \<and> (0 :: real) \<le> 2 \<and> length [0 :: real, 1] = length [1 :: real, 0] \<and>
   NoisyFrankeFunction counter_draw [0, 1] [1, 0] 2 0 =
     (Inr [FrankeFunction_point 0 1 + 2, FrankeFunction_point 1 0 - 2], 2)"
proof -
  have c: "sampler_contract counter_draw" by (rule counter_draw_contract)
  have s: "(0 :: real) \<le> 2" by simp
  have l: "length [0 :: real, 1] = length [1 :: real, 0]" by simp
  from NoisyFrankeFunction_adds_normal_noise [OF c s l, of 0 0]
  obtain f noise g' where f: "FrankeFunction [0, 1] [1, 0] = Inr f"
    and dr: "counter_draw (Normal 0 2) (length [0 :: real, 1]) 0 = (noise, g')"
    and run: "NoisyFrankeFunction counter_draw [0, 1] [1, 0] 2 0 = (Inr (map2 (+) f noise), g')"
    by blast
  have d: "counter_draw (Normal 0 2) (length [0 :: real, 1]) 0 = ([2, - 2], 2)"
    by (simp add: counter_draw_def upt_rec)
  from dr d have n: "noise = [2, - 2]" "g' = 2" by simp_all
  from f have "f = [FrankeFunction_point 0 1, FrankeFunction_point 1 0]"
    by (simp add: FrankeFunction_def broadcast2_def)
  with run n c show ?thesis by simp
qed

section \<open>Properties of the rescaling\<close>

lemma scale_data_run:
  assumes "z \<noteq> []" "Max (set z) \<noteq> 0"
  shows "scale_data z = Inr (map (\<lambda>v. v / Max (set z)) z)"
  using assms by (simp add: scale_data_def)

lemma divide_by_max_Min:
  fixes z :: array
  assumes "z \<noteq> []" "0 < Max (set z)"
  shows "Min (set (map (\<lambda>v. v / Max (set z)) z)) = Min (set z) / Max (set z)"
proof -
  have "mono (\<lambda>v :: real. v / Max (set z))"
    using assms(2) by (simp add: mono_def divide_right_mono)
  from mono_Min_commute [OF this, of "set z"] assms(1) show ?thesis by simp
qed

lemma divide_by_max_Max:
  fixes z :: array
  assumes "z \<noteq> []" "0 < Max (set z)"
  shows "Max (set (map (\<lambda>v. v / Max (set z)) z)) = 1"
proof -
  have "mono (\<lambda>v :: real. v / Max (set z))"
    using assms(2) by (simp add: mono_def divide_right_mono)
  from mono_Max_commute [OF this, of "set z"] assms show ?thesis by simp
qed

text \<open>
  C5: the rescaling maps \<open>z\<close> elementwise to \<open>z / max(z)\<close>; for an array whose maximum is
  positive and whose minimum is negative the outputs lie in \<open>[min / max, 1]\<close>, both ends
  are reached, the lower end is negative, and the result is not the min-max normalisation
  of \<open>z\<close>.
\<close>

theorem scale_data_divides_by_max:
  assumes "z \<noteq> []" "0 < Max (set z)" "Min (set z) < 0"
  shows "\<exists>z'. scale_data z = Inr z' \<and>
           z' = map (\<lambda>v. v / Max (set z)) z \<and>
           (\<forall>i<length z. z' ! i = z ! i / Max (set z)) \<and>
           (\<forall>v\<in>set z'. Min (set z) / Max (set z) \<le> v \<and> v \<le> 1) \<and>
           Min (set z') = Min (set z) / Max (set z) \<and>
           Max (set z') = 1 \<and>
           Min (set z') < 0 \<and>
           z' \<noteq> min_max_normalise z"
proof -
  let ?M = "Max (set z)" and ?m = "Min (set z)"
  let ?z' = "map (\<lambda>v. v / ?M) z"
  from assms have run: "scale_data z = Inr ?z'" by (simp add: scale_data_run)
  have pt: "\<forall>i<length z. ?z' ! i = z ! i / ?M" by simp
  have mn: "Min (set ?z') = ?m / ?M" by (rule divide_by_max_Min [OF assms(1,2)])
  have mx: "Max (set ?z') = 1" by (rule divide_by_max_Max [OF assms(1,2)])
  have ne: "set ?z' \<noteq> {}" using assms(1) by simp
  have range: "\<forall>v\<in>set ?z'. ?m / ?M \<le> v \<and> v \<le> 1"
  proof
    fix v assume v: "v \<in> set ?z'"
    have "Min (set ?z') \<le> v" using v by (intro Min_le) simp_all
    moreover have "v \<le> Max (set ?z')" using v by (intro Max_ge) simp_all
    ultimately show "?m / ?M \<le> v \<and> v \<le> 1" using mn mx by simp
  qed
  have neg: "Min (set ?z') < 0"
    using mn assms(2,3) by (simp add: divide_neg_pos)
  have differ: "?z' \<noteq> min_max_normalise z"
  proof
    assume eq: "?z' = min_max_normalise z"
    from assms(1) have "?m \<in> set z" by (intro Min_in) simp_all
    then obtain i where i: "i < length z" "z ! i = ?m" by (auto simp: in_set_conv_nth)
    from eq have "?z' ! i = min_max_normalise z ! i" by simp
    with i have "?m / ?M = 0" by (simp add: min_max_normalise_def)
    with assms(2,3) show False by simp
  qed
  from run pt range mn mx neg differ show ?thesis by blast
qed

theorem scale_data_divides_by_max_witness:
  "[- 1, 2, 4 :: real] \<noteq> [] \<and> 0 < Max (set [- 1, 2, 4 :: real]) \<and> Min (set [- 1, 2, 4 :: real]) < 0 \<and>
   scale_data [- 1, 2, 4] = Inr [- 1 / 4, 1 / 2, 1] \<and>
   min_max_normalise [- 1, 2, 4] = [0, 3 / 5, 1]"
proof -
  have a: "[- 1, 2, 4 :: real] \<noteq> []" "0 < Max (set [- 1, 2, 4 :: real])"
    "Min (set [- 1, 2, 4 :: real]) < 0" by simp_all
  from scale_data_divides_by_max [OF a]
  have "scale_data [- 1, 2, 4] = Inr (map (\<lambda>v. v / Max (set [- 1, 2, 4])) [- 1, 2, 4])"
    by blast
  then have "scale_data [- 1, 2, 4] = Inr [- 1 / 4, 1 / 2, 1]" by simp
  moreover have "min_max_normalise [- 1, 2, 4] = [0, 3 / 5, 1]"
    by (simp add: min_max_normalise_def)
  ultimately show ?thesis using a by simp
qed

section \<open>Properties of the constructor\<close>

lemma reshape2_columns:
  assumes "length vs = n * 2"
  shows "\<exists>data. reshape2 vs n 2 = Inr data \<and>
           get_column data 0 = Inr (map (\<lambda>r. vs ! (2 * r)) [0..<n]) \<and>
           get_column data 1 = Inr (map (\<lambda>r. vs ! (2 * r + 1)) [0..<n])"
proof -
  let ?data = "\<lparr>shape = (n, 2), cells = map (\<lambda>r. take 2 (drop (r * 2) vs)) [0..<n]\<rparr>"
  from assms have r: "reshape2 vs n 2 = Inr ?data" by (simp add: reshape2_def)
  have c0: "get_column ?data 0 = Inr (map (\<lambda>r. vs ! (2 * r)) [0..<n])"
    using assms by (simp add: get_column_def mult.commute)
  have c1: "get_column ?data 1 = Inr (map (\<lambda>r. vs ! (2 * r + 1)) [0..<n])"
    using assms by (simp add: get_column_def mult.commute)
  from r c0 c1 show ?thesis by blast
qed

lemma sample_points_run:
  assumes "sampler_contract draw" "0 \<le> n"
  shows "sample_points draw n g =
           (Inr (map (\<lambda>r. fst (draw Uniform01 (nat (2 * n)) g) ! (2 * r)) [0..<nat n],
                 map (\<lambda>r. fst (draw Uniform01 (nat (2 * n)) g) ! (2 * r + 1)) [0..<nat n]),
            snd (draw Uniform01 (nat (2 * n)) g))"
proof -
  let ?vs = "fst (draw Uniform01 (nat (2 * n)) g)"
  let ?g' = "snd (draw Uniform01 (nat (2 * n)) g)"
  from assms(2) have r: "np_random_rand draw (n * 2) g = (Inr ?vs, ?g')"
    by (simp add: np_random_rand_def mult.commute split: prod.splits)
  from assms have "length ?vs = nat n * 2"
    by (simp add: sampler_contract_def nat_mult_distrib)
  from reshape2_columns [OF this] r show ?thesis
    by (auto simp: sample_points_def)
qed





lemma design_matrix_succeeds:
  assumes "length x = length y"
  shows "\<exists>X. generate_design_matrix deg x y = Inr X"
proof (cases "0 \<le> deg")
  case True
  from design_matrix_run [OF assms True] show ?thesis by blast
next
  case False
  then show ?thesis by (simp add: generate_design_matrix_def Let_def)
qed

lemma FrankeData_init_noisy_scaled:
  assumes "sampler_contract draw" "0 \<le> arg_N args" "arg_random_noise args"
    "arg_scale_data args" "0 \<le> arg_noise_level args"
    "sample_points draw (arg_N args) g = (Inr (x, y), g1)"
    "draw (Normal 0 (arg_noise_level args)) (length x) g1 = (noise, g2)"
  shows "length x = length y \<and> length noise = length x \<and>
         FrankeFunction x y = Inr (map2 FrankeFunction_point x y) \<and>
         FrankeData_init scale draw args g =
           (case scale (map2 (+) (map2 FrankeFunction_point x y) noise) of
              Inl e \<Rightarrow> (Inl e, g2)
            | Inr z' \<Rightarrow>
                (case store_data (arg_degree args) x y z' (arg_test_size args) of
                   Inl e \<Rightarrow> (Inl e, g2)
                 | Inr obj \<Rightarrow> (Inr obj, g2)))"
proof -
  from sample_points_run [OF assms(1,2), of g] assms(6)
  have len: "length x = length y" by auto
  from assms(1) have "length (fst (draw (Normal 0 (arg_noise_level args)) (length x) g1)) = length x"
    by (simp add: sampler_contract_def)
  with assms(7) have ln: "length noise = length x" by simp
  from len have f: "FrankeFunction x y = Inr (map2 FrankeFunction_point x y)"
    by (simp add: FrankeFunction_def broadcast2_def)
  from NoisyFrankeFunction_run [OF assms(1,5) len, of g1] assms(7)
  have "NoisyFrankeFunction draw x y (arg_noise_level args) g1 =
      (Inr (map2 (+) (map2 FrankeFunction_point x y) noise), g2)" by simp
  with assms(3,4,6) have "FrankeData_init scale draw args g =
           (case scale (map2 (+) (map2 FrankeFunction_point x y) noise) of
              Inl e \<Rightarrow> (Inl e, g2)
            | Inr z' \<Rightarrow>
                (case store_data (arg_degree args) x y z' (arg_test_size args) of
                   Inl e \<Rightarrow> (Inl e, g2)
                 | Inr obj \<Rightarrow> (Inr obj, g2)))"
    by (simp add: FrankeData_init_def)
  with len ln f show ?thesis by simp
qed

lemma scale_data_Inr:
  assumes "scale_data z = Inr z'"
  shows "z' = map (\<lambda>v. v / Max (set z)) z"
  using assms by (simp add: scale_data_def split: if_splits)

text \<open>
  C10: with \<^verbatim>\<open>random_noise\<close> and \<^verbatim>\<open>scale_data\<close> both set, as they are by default, the
  rescaling is applied to the targets that already carry the noise: whatever the inherited
  \<^verbatim>\<open>scale_data\<close> computes, the stored target vector is its result on \<open>f + noise\<close>, for the
  function values \<open>f\<close> at the sample points and the noise drawn for them; with the rule
  \<open>z / max(z)\<close> it is \<open>(f + noise) / max(f + noise)\<close>, so a stored target differs from its
  noiseless value by more than the noise that was drawn.
\<close>

theorem constructor_scales_noisy_targets:
  assumes "sampler_contract draw" "0 \<le> arg_N args" "arg_random_noise args"
    "arg_scale_data args" "0 \<le> arg_noise_level args"
  shows "\<exists>x y g1 f noise g2.
           sample_points draw (arg_N args) g = (Inr (x, y), g1) \<and>
           FrankeFunction x y = Inr f \<and>
           draw (Normal 0 (arg_noise_level args)) (length x) g1 = (noise, g2) \<and>
           length f = length x \<and> length noise = length x \<and>
           (\<forall>scale obj g'. FrankeData_init scale draw args g = (Inr obj, g') \<longrightarrow>
              scale (map2 (+) f noise) = Inr (self_z obj)) \<and>
           (\<forall>obj g'. FrankeData_init scale_data draw args g = (Inr obj, g') \<longrightarrow>
              scale_data (map2 (+) f noise) = Inr (self_z obj) \<and>
              self_z obj = map (\<lambda>v. v / Max (set (map2 (+) f noise))) (map2 (+) f noise) \<and>
              (\<forall>i<length x. self_z obj ! i = (f ! i + noise ! i) / Max (set (map2 (+) f noise)))) \<and>
           (\<forall>z'. scale_data (map2 (+) f noise) = Inr z' \<longrightarrow>
              (\<exists>obj. FrankeData_init scale_data draw args g = (Inr obj, g2) \<and> self_z obj = z'))"
proof -
  let ?vs = "fst (draw Uniform01 (nat (2 * arg_N args)) g)"
  let ?g1 = "snd (draw Uniform01 (nat (2 * arg_N args)) g)"
  let ?x = "map (\<lambda>r. ?vs ! (2 * r)) [0..<nat (arg_N args)]"
  let ?y = "map (\<lambda>r. ?vs ! (2 * r + 1)) [0..<nat (arg_N args)]"
  let ?noise = "fst (draw (Normal 0 (arg_noise_level args)) (length ?x) ?g1)"
  let ?g2 = "snd (draw (Normal 0 (arg_noise_level args)) (length ?x) ?g1)"
  let ?f = "map2 FrankeFunction_point ?x ?y"
  let ?z = "map2 (+) ?f ?noise"
  have sp: "sample_points draw (arg_N args) g = (Inr (?x, ?y), ?g1)"
    by (rule sample_points_run [OF assms(1,2)])
  have d: "draw (Normal 0 (arg_noise_level args)) (length ?x) ?g1 = (?noise, ?g2)" by simp
  note any_scale = FrankeData_init_noisy_scaled [OF assms sp d]
  note run = any_scale [of scale_data]
  from run have len: "length ?x = length ?y" and ln: "length ?noise = length ?x"
    and f: "FrankeFunction ?x ?y = Inr ?f"
    and init: "FrankeData_init scale_data draw args g =
           (case scale_data ?z of
              Inl e \<Rightarrow> (Inl e, ?g2)
            | Inr z' \<Rightarrow>
                (case store_data (arg_degree args) ?x ?y z' (arg_test_size args) of
                   Inl e \<Rightarrow> (Inl e, ?g2)
                 | Inr obj \<Rightarrow> (Inr obj, ?g2)))"
    by blast+
  have lf: "length ?f = length ?x" by simp
  have handed: "scale ?z = Inr (self_z obj)"
    if "FrankeData_init scale draw args g = (Inr obj, g')" for scale obj g'
  proof -
    from any_scale [of scale] that obtain z' where z': "scale ?z = Inr z'"
      and st: "store_data (arg_degree args) ?x ?y z' (arg_test_size args) = Inr obj"
      by (auto split: sum.splits)
    from st have "self_z obj = z'" by (auto simp: store_data_def split: sum.splits)
    with z' show ?thesis by simp
  qed
  have stored: "scale_data ?z = Inr (self_z obj) \<and>
      self_z obj = map (\<lambda>v. v / Max (set ?z)) ?z \<and>
      (\<forall>i<length ?x. self_z obj ! i = (?f ! i + ?noise ! i) / Max (set ?z))"
    if "FrankeData_init scale_data draw args g = (Inr obj, g')" for obj g'
  proof -
    from that init obtain z' where z': "scale_data ?z = Inr z'"
      and st: "store_data (arg_degree args) ?x ?y z' (arg_test_size args) = Inr obj"
      by (auto split: sum.splits)
    from st have "self_z obj = z'" by (auto simp: store_data_def split: sum.splits)
    with z' have a: "scale_data ?z = Inr (self_z obj)" by simp
    from scale_data_Inr [OF a] have b: "self_z obj = map (\<lambda>v. v / Max (set ?z)) ?z" .
    have "self_z obj ! i = (?f ! i + ?noise ! i) / Max (set ?z)" if "i < length ?x" for i
    proof -
      from that ln have "i < length ?z" by simp
      then have "map (\<lambda>v. v / Max (set ?z)) ?z ! i = ?z ! i / Max (set ?z)" by (rule nth_map)
      moreover from that ln have "?z ! i = ?f ! i + ?noise ! i" by simp
      ultimately show ?thesis using b by simp
    qed
    with a b show ?thesis by blast
  qed
  have succeeds: "\<exists>obj. FrankeData_init scale_data draw args g = (Inr obj, ?g2) \<and> self_z obj = z'"
    if "scale_data ?z = Inr z'" for z'
  proof -
    from design_matrix_succeeds [OF len] obtain X
      where "generate_design_matrix (arg_degree args) ?x ?y = Inr X" by blast
    with that init show ?thesis by (simp add: store_data_def)
  qed
  from sp f d lf ln handed stored succeeds show ?thesis by blast
qed

lemma FrankeFunction_point_lower: "- (1 / 5) < FrankeFunction_point x y"
proof -
  have "0 \<le> (9 * x - 4) ^ 2 + (9 * y - 7) ^ 2" by simp
  then have "exp (- ((9 * x - 4) ^ 2) - (9 * y - 7) ^ 2) \<le> 1" by simp
  then have t4: "- (1 / 5) \<le> - 0.2 * exp (- ((9 * x - 4) ^ 2) - (9 * y - 7) ^ 2)" by simp
  have t1: "0 < 0.75 * exp (- (0.25 * (9 * x - 2) ^ 2) - 0.25 * ((9 * y - 2) ^ 2))"
    and t2: "0 < 0.75 * exp (- ((9 * x + 1) ^ 2) / 49.0 - 0.1 * (9 * y + 1))"
    and t3: "0 < 0.5 * exp (- ((9 * x - 7) ^ 2) / 4.0 - 0.25 * ((9 * y - 3) ^ 2))"
    by simp_all
  from t1 t2 t3 t4 show ?thesis
    unfolding FrankeFunction_point_def Let_def by linarith
qed

theorem constructor_scales_noisy_targets_witness:
  "sampler_contract counter_draw \<and> 0 \<le> arg_N (default_args 1) \<and>
   arg_random_noise (default_args 1) \<and> arg_scale_data (default_args 1) \<and>
   0 \<le> arg_noise_level (default_args 1) \<and>
   (\<exists>obj. FrankeData_init scale_data counter_draw (default_args 1) 0 = (Inr obj, 3) \<and>
      self_z obj = [1]) \<and>
   (case scale_data [FrankeFunction_point (1 / 2) (1 / 3)] of
      Inl e \<Rightarrow> True
    | Inr s \<Rightarrow> map2 (+) s [1 / 5] \<noteq> [1])"
proof -
  let ?args = "default_args 1"
  let ?F = "FrankeFunction_point (1 / 2) (1 / 3)"
  have c: "sampler_contract counter_draw" by (rule counter_draw_contract)
  have a: "0 \<le> arg_N ?args" "arg_random_noise ?args" "arg_scale_data ?args"
    "0 \<le> arg_noise_level ?args"
    by (simp_all add: default_args_def DEFAULT_NOISE_LEVEL_def)
  have sp: "sample_points counter_draw (arg_N ?args) 0 = (Inr ([1 / 2], [1 / 3]), 2)"
    using sample_points_run [OF c a(1), of 0]
    by (simp add: default_args_def counter_draw_def upt_rec)
  have dn: "counter_draw (Normal 0 (arg_noise_level ?args)) (length [1 / 2 :: real]) 2 = ([1 / 5], 3)"
    by (simp add: default_args_def DEFAULT_NOISE_LEVEL_def counter_draw_def upt_rec)
  from constructor_scales_noisy_targets [OF c a, of 0] sp
  obtain f noise g2 where f: "FrankeFunction [1 / 2] [1 / 3] = Inr f"
    and d: "counter_draw (Normal 0 (arg_noise_level ?args)) (length [1 / 2 :: real]) 2 = (noise, g2)"
    and ok: "\<And>z'. scale_data (map2 (+) f noise) = Inr z' \<Longrightarrow>
      \<exists>obj. FrankeData_init scale_data counter_draw ?args 0 = (Inr obj, g2) \<and> self_z obj = z'"
    by auto
  from f have fv: "f = [?F]" by (simp add: FrankeFunction_def broadcast2_def)
  from d dn have nv: "noise = [1 / 5]" "g2 = 3" by simp_all
  from FrankeFunction_point_lower [of "1 / 2" "1 / 3"] have pos: "?F + 1 / 5 \<noteq> 0" by simp
  then have "scale_data (map2 (+) f noise) = Inr [1]"
    by (simp add: fv nv scale_data_def)
  from ok [OF this] nv
  have first: "\<exists>obj. FrankeData_init scale_data counter_draw ?args 0 = (Inr obj, 3) \<and> self_z obj = [1]"
    by simp
  have second: "case scale_data [?F] of Inl e \<Rightarrow> True | Inr s \<Rightarrow> map2 (+) s [1 / 5] \<noteq> [1]"
    by (simp add: scale_data_def)
  from c a first second show ?thesis by simp
qed

section \<open>Properties of the result table\<close>

lemma write_rows_complete:
  assumes "\<forall>i\<in>set is. i < length mses_train \<and> i < length mses_test \<and>
             i < length biases \<and> i < length variances"
  shows "write_rows str_x fmt x mses_train mses_test biases variances is written =
           (Inr (),
            written @ concat (map (\<lambda>i. table_row str_x fmt (x ! i) (mses_train ! i)
                                        (mses_test ! i) (biases ! i) (variances ! i)) is))"
  using assms by (induction "is" arbitrary: written) simp_all

lemma write_to_file_complete:
  assumes "dirname (''output/data/'' @ filename) \<in> directories fs"
    "length x \<le> length mses_train" "length x \<le> length mses_test"
    "length x \<le> length biases" "length x \<le> length variances"
  shows "write_to_file str_x fmt fs filename x mses_train mses_test biases variances x_label =
           (Inr (),
            fs\<lparr>files := (files fs)(''output/data/'' @ filename \<mapsto>
               table_header x_label @
               concat (map (\<lambda>i. table_row str_x fmt (x ! i) (mses_train ! i) (mses_test ! i)
                                   (biases ! i) (variances ! i)) [0..<length x]))\<rparr>)"
proof -
  from assms(2-5)
  have "\<forall>i\<in>set [0..<length x]. i < length mses_train \<and> i < length mses_test \<and>
          i < length biases \<and> i < length variances" by simp
  note rows = write_rows_complete [OF this, of str_x fmt x "table_header x_label"]
  from assms(1) show ?thesis
    by (simp add: write_to_file_def Let_def rows)
qed

text \<open>
  C6: when the output directory exists and the four result lists have an entry for every
  swept value, \<^verbatim>\<open>write_to_file\<close> returns normally and changes one file only, which then
  holds the header line \<open><label>,mse_train,mse_test,bias,variance\<close> followed by one line per
  swept value, line \<open>i\<close> being \<open>x[i],mses_train[i],mses_test[i],biases[i],variances[i]\<close>.
\<close>

theorem write_to_file_table:
  assumes "dirname (''output/data/'' @ filename) \<in> directories fs"
    "length x \<le> length mses_train" "length x \<le> length mses_test"
    "length x \<le> length biases" "length x \<le> length variances"
  shows "\<exists>rows.
           write_to_file str_x fmt fs filename x mses_train mses_test biases variances x_label =
             (Inr (),
              fs\<lparr>files := (files fs)(''output/data/'' @ filename \<mapsto>
                 concat (map (\<lambda>line. line @ [CHR ''\<newline>''])
                   ((x_label @ '',mse_train,mse_test,bias,variance'') # rows)))\<rparr>) \<and>
           length rows = length x \<and>
           (\<forall>i<length x. rows ! i =
              str_x (x ! i) @ '','' @ fmt (mses_train ! i) @ '','' @ fmt (mses_test ! i) @ '',''
                @ fmt (biases ! i) @ '','' @ fmt (variances ! i))"
proof -
  let ?row = "\<lambda>i. str_x (x ! i) @ '','' @ fmt (mses_train ! i) @ '','' @ fmt (mses_test ! i)
                @ '','' @ fmt (biases ! i) @ '','' @ fmt (variances ! i)"
  let ?rows = "map ?row [0..<length x]"
  have "concat (map (\<lambda>i. table_row str_x fmt (x ! i) (mses_train ! i) (mses_test ! i)
                           (biases ! i) (variances ! i)) [0..<length x])
        = concat (map (\<lambda>line. line @ [CHR ''\<newline>'']) ?rows)"
    by (simp add: table_row_def comp_def)
  with write_to_file_complete [OF assms, of str_x fmt x_label]
  have "write_to_file str_x fmt fs filename x mses_train mses_test biases variances x_label =
             (Inr (),
              fs\<lparr>files := (files fs)(''output/data/'' @ filename \<mapsto>
                 concat (map (\<lambda>line. line @ [CHR ''\<newline>''])
                   ((x_label @ '',mse_train,mse_test,bias,variance'') # ?rows)))\<rparr>)"
    by (simp add: table_header_def)
  moreover have "length ?rows = length x" by simp
  moreover have "\<forall>i<length x. ?rows ! i = ?row i" by simp
  ultimately show ?thesis by blast
qed


theorem write_to_file_table_witness:
  "dirname (''output/data/'' @ ''t.csv'') \<in> directories \<lparr>directories = {''output/data''}, files = Map.empty\<rparr> \<and>
   length [1, 2 :: int] \<le> length [3, 4 :: real] \<and> length [1, 2 :: int] \<le> length [5, 6 :: real] \<and>
   length [1, 2 :: int] \<le> length [7, 8 :: real] \<and> length [1, 2 :: int] \<le> length [9, 10 :: real] \<and>
   write_to_file str_int (\<lambda>v. str_int \<lfloor>v\<rfloor>) \<lparr>directories = {''output/data''}, files = Map.empty\<rparr>
       ''t.csv'' [1, 2] [3, 4] [5, 6] [7, 8] [9, 10] ''degree'' =
     (Inr (),
      \<lparr>directories = {''output/data''},
       files = Map.empty(''output/data/t.csv'' \<mapsto>
         ''degree,mse_train,mse_test,bias,variance'' @ [CHR ''\<newline>''] @
         ''1,3,5,7,9'' @ [CHR ''\<newline>''] @ ''2,4,6,8,10'' @ [CHR ''\<newline>''])\<rparr>)"
proof -
  let ?fs = "\<lparr>directories = {''output/data''}, files = Map.empty\<rparr>"
  have h: "dirname (''output/data/'' @ ''t.csv'') \<in> directories ?fs"
    "length [1, 2 :: int] \<le> length [3, 4 :: real]" "length [1, 2 :: int] \<le> length [5, 6 :: real]"
    "length [1, 2 :: int] \<le> length [7, 8 :: real]" "length [1, 2 :: int] \<le> length [9, 10 :: real]"
    by (simp_all add: dirname_def)
  from write_to_file_table [OF h, of str_int "\<lambda>v. str_int \<lfloor>v\<rfloor>" "''degree''"]
  obtain rows where run: "write_to_file str_int (\<lambda>v. str_int \<lfloor>v\<rfloor>) ?fs ''t.csv'' [1, 2] [3, 4]
        [5, 6] [7, 8] [9, 10] ''degree'' =
      (Inr (), ?fs\<lparr>files := (files ?fs)(''output/data/'' @ ''t.csv'' \<mapsto>
         concat (map (\<lambda>line. line @ [CHR ''\<newline>''])
           ((''degree'' @ '',mse_train,mse_test,bias,variance'') # rows)))\<rparr>)"
    and len: "length rows = length [1, 2 :: int]"
    and row: "\<forall>i<length [1, 2 :: int]. rows ! i =
        str_int ([1, 2] ! i) @ '','' @ str_int \<lfloor>[3, 4 :: real] ! i\<rfloor> @ '','' @
        str_int \<lfloor>[5, 6 :: real] ! i\<rfloor> @ '','' @ str_int \<lfloor>[7, 8 :: real] ! i\<rfloor> @ '','' @
        str_int \<lfloor>[9, 10 :: real] ! i\<rfloor>"
    by blast
  have digits: "str_int 1 = ''1''" "str_int 2 = ''2''" "str_int 3 = ''3''" "str_int 4 = ''4''"
    "str_int 5 = ''5''" "str_int 6 = ''6''" "str_int 7 = ''7''" "str_int 8 = ''8''"
    "str_int 9 = ''9''" "str_int 10 = ''10''"
    by (simp_all add: str_int_def str_nat.simps)
  from row have "rows ! 0 = ''1,3,5,7,9''" "rows ! 1 = ''2,4,6,8,10''"
    by (simp_all add: digits)
  with len have "rows = [''1,3,5,7,9'', ''2,4,6,8,10'']"
    by (cases rows; cases "tl rows") auto
  with run h show ?thesis by simp
qed

section \<open>Properties of the sweep\<close>

text \<open>The sampler, lifted to a state with a log, computes what it computes without the log.\<close>

lemma np_random_rand_lift:
  "np_random_rand (lift_draw draw) n (g, c) =
     (case np_random_rand draw n g of (r, g') \<Rightarrow> (r, (g', c)))"
  by (simp add: np_random_rand_def lift_draw_def split: prod.splits)

lemma np_random_normal_lift:
  "np_random_normal (lift_draw draw) loc scale n (g, c) =
     (case np_random_normal draw loc scale n g of (r, g') \<Rightarrow> (r, (g', c)))"
  by (simp add: np_random_normal_def lift_draw_def split: prod.splits)

lemma sample_points_lift:
  "sample_points (lift_draw draw) n (g, c) =
     (case sample_points draw n g of (r, g') \<Rightarrow> (r, (g', c)))"
  by (simp add: sample_points_def np_random_rand_lift split: prod.splits sum.splits)

lemma NoisyFrankeFunction_lift:
  "NoisyFrankeFunction (lift_draw draw) x y sigma (g, c) =
     (case NoisyFrankeFunction draw x y sigma g of (r, g') \<Rightarrow> (r, (g', c)))"
  by (simp add: NoisyFrankeFunction_def generate_noise_def np_random_normal_lift
      split: prod.splits sum.splits)

lemma FrankeData_init_lift:
  "FrankeData_init scale (lift_draw draw) args (g, c) =
     (case FrankeData_init scale draw args g of (r, g') \<Rightarrow> (r, (g', c)))"
  by (simp add: FrankeData_init_def sample_points_lift NoisyFrankeFunction_lift
      split: prod.splits sum.splits)

lemma FrankeData_init_degree:
  assumes "FrankeData_init scale draw args g = (Inr data, g')"
  shows "self_degree data = arg_degree args"
  using assms
  by (auto simp: FrankeData_init_def store_data_def split: prod.splits sum.splits if_splits)


text \<open>
  The loop with the observed estimator: it computes what the loop computes without the
  log, and the log grows by one entry per call, in the order of the degrees; an entry that
  records a raise is the last one and is the result of the loop; when the loop returns,
  there is one entry per degree and the four lists grew by the four numbers of each.
\<close>

lemma sweep_loop_logged:
  assumes "sweep_loop scale (lift_draw draw) (logged bootstrap) ols cfg ds (mt, ms, b, v) (g, c)
             = (r, (g', c'))"
  shows "sweep_loop scale draw bootstrap ols cfg ds (mt, ms, b, v) g = (r, g') \<and>
         (\<exists>new. c' = c @ new \<and> map fst new = take (length new) ds \<and>
            (\<forall>d e. (d, Inl e) \<in> set new \<longrightarrow> r = Inl e) \<and>
            (\<forall>acc. r = Inr acc \<longrightarrow>
               (\<exists>ests. new = zip ds (map Inr ests) \<and> length ests = length ds \<and>
                  acc = (mt @ map (\<lambda>(bi, va, tr, te). tr) ests,
                         ms @ map (\<lambda>(bi, va, tr, te). te) ests,
                         b @ map (\<lambda>(bi, va, tr, te). bi) ests,
                         v @ map (\<lambda>(bi, va, tr, te). va) ests))))"
  using assms
proof (induction ds arbitrary: mt ms b v g c)
  case Nil
  then have "r = Inr (mt, ms, b, v)" "g' = g" "c' = c" by auto
  then show ?case by simp
next
  case (Cons d ds)
  let ?args = "(default_args (DATA_SIZE cfg))
                 \<lparr>arg_degree := d, arg_test_size := Some (BIAS_VARIANCE_TEST_SIZE cfg)\<rparr>"
  let ?B = "BIAS_VARIANCE_BOOTSTRAP_SIZE cfg"
  obtain r1 g1 where init: "FrankeData_init scale draw ?args g = (r1, g1)" by fastforce
  then have init': "FrankeData_init scale (lift_draw draw) ?args (g, c) = (r1, (g1, c))"
    by (simp add: FrankeData_init_lift)
  show ?case
  proof (cases r1)
    case (Inl e)
    with Cons.prems init' have "r = Inl e" "g' = g1" "c' = c" by simp_all
    with init Inl show ?thesis by simp
  next
    case data: (Inr data)
    from init data have "self_degree data = arg_degree ?args"
      by (intro FrankeData_init_degree) simp
    then have deg: "self_degree data = d" by simp
    obtain r2 g2 where bs: "bootstrap ols data ?B g1 = (r2, g2)" by fastforce
    with deg have bs': "logged bootstrap ols data ?B (g1, c) = (r2, (g2, c @ [(d, r2)]))"
      by (simp add: logged_def)
    show ?thesis
    proof (cases r2)
      case (Inl e)
      with Cons.prems init' data bs' have "r = Inl e" "g' = g2" "c' = c @ [(d, Inl e)]"
        by simp_all
      moreover from init data bs Inl
      have "sweep_loop scale draw bootstrap ols cfg (d # ds) (mt, ms, b, v) g = (Inl e, g2)"
        by simp
      ultimately show ?thesis by simp
    next
      case est: (Inr est)
      obtain bi va tr te where q: "est = (bi, va, tr, te)" by (cases est) auto
      from Cons.prems init' data bs' est q
      have rest: "sweep_loop scale (lift_draw draw) (logged bootstrap) ols cfg ds
                    (mt @ [tr], ms @ [te], b @ [bi], v @ [va]) (g2, c @ [(d, Inr est)])
                  = (r, (g', c'))"
        by simp
      from Cons.IH [OF rest]
      obtain new where plain: "sweep_loop scale draw bootstrap ols cfg ds
                    (mt @ [tr], ms @ [te], b @ [bi], v @ [va]) g2 = (r, g')"
        and c': "c' = (c @ [(d, Inr est)]) @ new"
        and order: "map fst new = take (length new) ds"
        and raised: "\<And>d' e. (d', Inl e) \<in> set new \<Longrightarrow> r = Inl e"
        and returned: "\<And>acc. r = Inr acc \<Longrightarrow>
               \<exists>ests. new = zip ds (map Inr ests) \<and> length ests = length ds \<and>
                  acc = ((mt @ [tr]) @ map (\<lambda>(bi, va, tr, te). tr) ests,
                         (ms @ [te]) @ map (\<lambda>(bi, va, tr, te). te) ests,
                         (b @ [bi]) @ map (\<lambda>(bi, va, tr, te). bi) ests,
                         (v @ [va]) @ map (\<lambda>(bi, va, tr, te). va) ests)"
        by blast
      let ?new = "(d, Inr est) # new"
      from init data bs est q plain
      have 1: "sweep_loop scale draw bootstrap ols cfg (d # ds) (mt, ms, b, v) g = (r, g')"
        by simp
      from c' have 2: "c' = c @ ?new" by simp
      from order have 3: "map fst ?new = take (length ?new) (d # ds)" by simp
      from raised have 4: "\<forall>d' e. (d', Inl e) \<in> set ?new \<longrightarrow> r = Inl e" by auto
      have 5: "\<exists>ests. ?new = zip (d # ds) (map Inr ests) \<and> length ests = length (d # ds) \<and>
                  acc = (mt @ map (\<lambda>(bi, va, tr, te). tr) ests,
                         ms @ map (\<lambda>(bi, va, tr, te). te) ests,
                         b @ map (\<lambda>(bi, va, tr, te). bi) ests,
                         v @ map (\<lambda>(bi, va, tr, te). va) ests)" if "r = Inr acc" for acc
      proof -
        from returned [OF that] obtain ests where
          "new = zip ds (map Inr ests)" "length ests = length ds"
          "acc = ((mt @ [tr]) @ map (\<lambda>(bi, va, tr, te). tr) ests,
                  (ms @ [te]) @ map (\<lambda>(bi, va, tr, te). te) ests,
                  (b @ [bi]) @ map (\<lambda>(bi, va, tr, te). bi) ests,
                  (v @ [va]) @ map (\<lambda>(bi, va, tr, te). va) ests)"
          by blast
        with q show ?thesis
          by (intro exI [of _ "est # ests"]) simp
      qed
      from 1 2 3 4 5 show ?thesis by blast
    qed
  qed
qed


lemma degrees_list: "degrees = [1, 2, 3, 4, 5, 6, 7, 8, 9, 10, 11, 12, 13, 14, 15]"
  by (simp add: degrees_def upt_rec)

lemma length_degrees: "length degrees = 15"
  by (simp add: degrees_def)

lemma nth_degrees: "i < 15 \<Longrightarrow> degrees ! i = int i + 1"
  by (simp add: degrees_def)

lemma dirname_ols: "dirname (''output/data/'' @ ''bias_variance_ols.csv'') = ''output/data''"
  by (simp add: dirname_def)

lemma table_lines:
  "table_header x_label @
     concat (map (\<lambda>i. table_row str_x fmt (x ! i) (mt ! i) (ms ! i) (b ! i) (v ! i)) [0..<n])
   = concat (map (\<lambda>line. line @ [CHR ''\<newline>''])
       ((x_label @ '',mse_train,mse_test,bias,variance'') #
        map (\<lambda>i. str_x (x ! i) @ '','' @ fmt (mt ! i) @ '','' @ fmt (ms ! i) @ '',''
                    @ fmt (b ! i) @ '','' @ fmt (v ! i)) [0..<n]))"
  by (simp add: table_header_def table_row_def comp_def)

text \<open>What the driver does once the loop has returned its four lists.\<close>

lemma driver_after_loop:
  assumes "sweep_loop scale draw bootstrap ols cfg degrees ([], [], [], []) g
             = (Inr (mt, ms, b, v), g')"
    "length mt = 15" "length ms = 15" "length b = 15" "length v = 15"
  shows "bias_variance_analysis_ols scale draw bootstrap ols fmt cfg g fs =
           (if ''output/data'' \<in> directories fs
            then (Inr (), g',
                  fs\<lparr>files := (files fs)(''output/data/bias_variance_ols.csv'' \<mapsto>
                     concat (map (\<lambda>line. line @ [CHR ''\<newline>''])
                       (''degree,mse_train,mse_test,bias,variance'' #
                        map (\<lambda>i. str_int (int i + 1) @ '','' @ fmt (mt ! i) @ '','' @ fmt (ms ! i)
                                    @ '','' @ fmt (b ! i) @ '','' @ fmt (v ! i)) [0..<15])))\<rparr>)
            else (Inl FileNotFoundError, g', fs))"
proof (cases "''output/data'' \<in> directories fs")
  case True
  then have dir: "dirname (''output/data/'' @ ''bias_variance_ols.csv'') \<in> directories fs"
    by (simp only: dirname_ols)
  have rows: "map (\<lambda>i. str_int (degrees ! i) @ '','' @ fmt (mt ! i) @ '','' @ fmt (ms ! i)
                    @ '','' @ fmt (b ! i) @ '','' @ fmt (v ! i)) [0..<15]
      = map (\<lambda>i. str_int (int i + 1) @ '','' @ fmt (mt ! i) @ '','' @ fmt (ms ! i)
                    @ '','' @ fmt (b ! i) @ '','' @ fmt (v ! i)) [0..<15]"
    by (rule map_cong) (simp_all add: nth_degrees)
  have "write_to_file str_int fmt fs ''bias_variance_ols.csv'' degrees mt ms b v ''degree'' =
      (Inr (), fs\<lparr>files := (files fs)(''output/data/'' @ ''bias_variance_ols.csv'' \<mapsto>
         concat (map (\<lambda>line. line @ [CHR ''\<newline>''])
           ((''degree'' @ '',mse_train,mse_test,bias,variance'') #
            map (\<lambda>i. str_int (int i + 1) @ '','' @ fmt (mt ! i) @ '','' @ fmt (ms ! i)
                        @ '','' @ fmt (b ! i) @ '','' @ fmt (v ! i)) [0..<15])))\<rparr>)"
    using write_to_file_complete [OF dir, of degrees mt ms b v str_int fmt "''degree''"] assms(2-5)
    by (simp only: length_degrees table_lines rows)
  with True assms(1) show ?thesis
    by (simp add: bias_variance_analysis_ols_def)
next
  case False
  then have "dirname (''output/data/'' @ ''bias_variance_ols.csv'') \<notin> directories fs"
    by (simp add: dirname_ols del: append.simps)
  then have "write_to_file str_int fmt fs ''bias_variance_ols.csv'' degrees mt ms b v ''degree'' =
      (Inl FileNotFoundError, fs)"
    by (simp add: write_to_file_def Let_def)
  with False assms(1) show ?thesis
    by (simp add: bias_variance_analysis_ols_def)
qed


text \<open>
  C7: the driver writes its table only after the estimator has returned for every degree.
  In a run observed through the log: if a call of the estimator raised, the driver returns
  that exception and the files are as before; the same holds when the loop fails for any
  reason; and in every case either the files are untouched or the driver returned normally,
  every degree was estimated, and the one file written holds the header and fifteen rows.
\<close>

theorem sweep_writes_complete_table_or_nothing:
  assumes "bias_variance_analysis_ols scale (lift_draw draw) (logged bootstrap) ols fmt cfg
             (g, []) fs = (r, (g', calls), fs')"
  shows "bias_variance_analysis_ols scale draw bootstrap ols fmt cfg g fs = (r, g', fs') \<and>
         (\<forall>d e. (d, Inl e) \<in> set calls \<longrightarrow> r = Inl e \<and> fs' = fs) \<and>
         (\<forall>e g1. sweep_loop scale draw bootstrap ols cfg degrees ([], [], [], []) g = (Inl e, g1)
            \<longrightarrow> r = Inl e \<and> g' = g1 \<and> fs' = fs) \<and>
         (fs' = fs \<or>
          (r = Inr () \<and> map fst calls = degrees \<and>
           (\<exists>rows. length rows = 15 \<and>
              fs' = fs\<lparr>files := (files fs)(''output/data/bias_variance_ols.csv'' \<mapsto>
                 concat (map (\<lambda>line. line @ [CHR ''\<newline>''])
                   (''degree,mse_train,mse_test,bias,variance'' # rows)))\<rparr>)))"
proof -
  obtain rl g1 c1 where loop:
    "sweep_loop scale (lift_draw draw) (logged bootstrap) ols cfg degrees ([], [], [], []) (g, [])
       = (rl, (g1, c1))"
    by (metis surj_pair)
  from sweep_loop_logged [OF loop]
  obtain new where plain: "sweep_loop scale draw bootstrap ols cfg degrees ([], [], [], []) g = (rl, g1)"
    and c1: "c1 = new"
    and raised: "\<And>d e. (d, Inl e) \<in> set new \<Longrightarrow> rl = Inl e"
    and returned: "\<And>acc. rl = Inr acc \<Longrightarrow>
       \<exists>ests. new = zip degrees (map Inr ests) \<and> length ests = length degrees \<and>
          acc = ([] @ map (\<lambda>(bi, va, tr, te). tr) ests, [] @ map (\<lambda>(bi, va, tr, te). te) ests,
                 [] @ map (\<lambda>(bi, va, tr, te). bi) ests, [] @ map (\<lambda>(bi, va, tr, te). va) ests)"
    by auto
  show ?thesis
  proof (cases rl)
    case (Inl e)
    with assms loop have res: "r = Inl e" "g' = g1" "calls = c1" "fs' = fs"
      by (simp_all add: bias_variance_analysis_ols_def)
    from plain Inl have "bias_variance_analysis_ols scale draw bootstrap ols fmt cfg g fs = (Inl e, g1, fs)"
      by (simp add: bias_variance_analysis_ols_def)
    moreover have "r = Inl e'" if "(d, Inl e') \<in> set calls" for d e'
      using raised [of d e'] that res c1 Inl by simp
    ultimately show ?thesis using res plain Inl by auto
  next
    case (Inr acc)
    from returned [OF Inr] obtain ests where new: "new = zip degrees (map Inr ests)"
      and le: "length ests = 15"
      and acc: "acc = (map (\<lambda>(bi, va, tr, te). tr) ests, map (\<lambda>(bi, va, tr, te). te) ests,
                       map (\<lambda>(bi, va, tr, te). bi) ests, map (\<lambda>(bi, va, tr, te). va) ests)"
      by (auto simp: length_degrees)
    let ?mt = "map (\<lambda>(bi, va, tr, te). tr) ests" and ?ms = "map (\<lambda>(bi, va, tr, te). te) ests"
    let ?b = "map (\<lambda>(bi, va, tr, te). bi) ests" and ?v = "map (\<lambda>(bi, va, tr, te). va) ests"
    have lens: "length ?mt = 15" "length ?ms = 15" "length ?b = 15" "length ?v = 15"
      using le by simp_all
    from loop Inr acc c1 have loop': "sweep_loop scale (lift_draw draw) (logged bootstrap) ols cfg
        degrees ([], [], [], []) (g, []) = (Inr (?mt, ?ms, ?b, ?v), (g1, new))" by simp
    from plain Inr acc have plain': "sweep_loop scale draw bootstrap ols cfg degrees
        ([], [], [], []) g = (Inr (?mt, ?ms, ?b, ?v), g1)" by simp
    note observed = driver_after_loop [OF loop' lens, of fmt fs]
    note unobserved = driver_after_loop [OF plain' lens, of fmt fs]
    have noraise: "(d, Inl e) \<notin> set calls" if "calls = new" for d e
      using raised [of d e] that Inr by auto
    have order: "map fst new = degrees"
      using new le by (simp add: length_degrees)
    show ?thesis
    proof (cases "''output/data'' \<in> directories fs")
      case True
      with assms observed have res: "r = Inr ()" "g' = g1" "calls = new"
        "fs' = fs\<lparr>files := (files fs)(''output/data/bias_variance_ols.csv'' \<mapsto>
                     concat (map (\<lambda>line. line @ [CHR ''\<newline>''])
                       (''degree,mse_train,mse_test,bias,variance'' #
                        map (\<lambda>i. str_int (int i + 1) @ '','' @ fmt (?mt ! i) @ '','' @ fmt (?ms ! i)
                                    @ '','' @ fmt (?b ! i) @ '','' @ fmt (?v ! i)) [0..<15])))\<rparr>"
        by simp_all
      have 1: "bias_variance_analysis_ols scale draw bootstrap ols fmt cfg g fs = (r, g', fs')"
        using unobserved True res by simp
      have 2: "\<forall>d e. (d, Inl e) \<in> set calls \<longrightarrow> r = Inl e \<and> fs' = fs"
        using noraise [OF res(3)] by blast
      have 3: "\<forall>e g2. sweep_loop scale draw bootstrap ols cfg degrees ([], [], [], []) g = (Inl e, g2)
            \<longrightarrow> r = Inl e \<and> g' = g2 \<and> fs' = fs"
        using plain' by simp
      have 4: "\<exists>rows. length rows = 15 \<and>
              fs' = fs\<lparr>files := (files fs)(''output/data/bias_variance_ols.csv'' \<mapsto>
                 concat (map (\<lambda>line. line @ [CHR ''\<newline>''])
                   (''degree,mse_train,mse_test,bias,variance'' # rows)))\<rparr>"
        by (rule exI [of _ "map (\<lambda>i. str_int (int i + 1) @ '','' @ fmt (?mt ! i) @ '','' @ fmt (?ms ! i)
                                    @ '','' @ fmt (?b ! i) @ '','' @ fmt (?v ! i)) [0..<15]"])
          (simp add: res(4))
      from 1 2 3 4 res(1,3) order show ?thesis by blast
    next
      case False
      with assms observed have res: "r = Inl FileNotFoundError" "g' = g1" "calls = new" "fs' = fs"
        by simp_all
      have 1: "bias_variance_analysis_ols scale draw bootstrap ols fmt cfg g fs = (r, g', fs')"
        using unobserved False res by simp
      have 2: "\<forall>d e. (d, Inl e) \<in> set calls \<longrightarrow> r = Inl e \<and> fs' = fs"
        using noraise [OF res(3)] by blast
      have 3: "\<forall>e g2. sweep_loop scale draw bootstrap ols cfg degrees ([], [], [], []) g = (Inl e, g2)
            \<longrightarrow> r = Inl e \<and> g' = g2 \<and> fs' = fs"
        using plain' by simp
      from 1 2 3 res(4) show ?thesis by blast
    qed
  qed
qed

text \<open>
  C8: the driver sweeps the degrees 1 to 15 in increasing order. In a run observed through
  the log in which the loop returns, the estimator was called exactly once per degree, in
  that order, and call \<open>i\<close> returned the four numbers \<open>(bias, variance, mse_train, mse_test)\<close>
  that stand at position \<open>i\<close> of the lists of biases, variances, train errors and test
  errors; the table the driver then writes has in row \<open>i\<close> the degree \<open>i + 1\<close> and these
  numbers.
\<close>

theorem sweep_aligns_results_with_degrees:
  assumes "sweep_loop scale (lift_draw draw) (logged bootstrap) ols cfg degrees ([], [], [], [])
             (g, []) = (Inr (mt, ms, b, v), (g', calls))"
  shows "degrees = [1, 2, 3, 4, 5, 6, 7, 8, 9, 10, 11, 12, 13, 14, 15] \<and>
         sweep_loop scale draw bootstrap ols cfg degrees ([], [], [], []) g
           = (Inr (mt, ms, b, v), g') \<and>
         map fst calls = degrees \<and>
         length mt = 15 \<and> length ms = 15 \<and> length b = 15 \<and> length v = 15 \<and>
         (\<forall>i<15. calls ! i = (int i + 1, Inr (b ! i, v ! i, mt ! i, ms ! i))) \<and>
         bias_variance_analysis_ols scale draw bootstrap ols fmt cfg g fs =
           (if ''output/data'' \<in> directories fs
            then (Inr (), g',
                  fs\<lparr>files := (files fs)(''output/data/bias_variance_ols.csv'' \<mapsto>
                     concat (map (\<lambda>line. line @ [CHR ''\<newline>''])
                       (''degree,mse_train,mse_test,bias,variance'' #
                        map (\<lambda>i. str_int (int i + 1) @ '','' @ fmt (mt ! i) @ '','' @ fmt (ms ! i)
                                    @ '','' @ fmt (b ! i) @ '','' @ fmt (v ! i)) [0..<15])))\<rparr>)
            else (Inl FileNotFoundError, g', fs))"
proof -
  from sweep_loop_logged [OF assms]
  obtain ests where plain: "sweep_loop scale draw bootstrap ols cfg degrees ([], [], [], []) g
      = (Inr (mt, ms, b, v), g')"
    and calls: "calls = zip degrees (map Inr ests)"
    and le: "length ests = 15"
    and lists: "mt = map (\<lambda>(bi, va, tr, te). tr) ests" "ms = map (\<lambda>(bi, va, tr, te). te) ests"
      "b = map (\<lambda>(bi, va, tr, te). bi) ests" "v = map (\<lambda>(bi, va, tr, te). va) ests"
    by (auto simp: length_degrees)
  from lists le have lens: "length mt = 15" "length ms = 15" "length b = 15" "length v = 15"
    by simp_all
  from calls le have order: "map fst calls = degrees"
    by (simp add: length_degrees)
  have nth: "calls ! i = (int i + 1, Inr (b ! i, v ! i, mt ! i, ms ! i))" if "i < 15" for i
  proof -
    obtain bi va tr te where e: "ests ! i = (bi, va, tr, te)" by (cases "ests ! i") auto
    from that le calls have "calls ! i = (degrees ! i, Inr (ests ! i))"
      by (simp add: length_degrees)
    with that le e lists show ?thesis by (simp add: nth_degrees)
  qed
  from degrees_list plain order lens nth driver_after_loop [OF plain lens, of fmt fs]
  show ?thesis by blast
qed

text \<open>The example configuration, run.\<close>

lemma counter_constructor:
  assumes "even k"
  shows "FrankeData_init scale_data counter_draw
           ((default_args 1)\<lparr>arg_degree := d, arg_test_size := t\<rparr>) k =
         (Inr \<lparr>self_degree = d,
               self_X = projr (generate_design_matrix d [1 / real (k + 2)] [1 / real (k + 3)]),
               self_z = [1], self_test_size = t, self_stratify = False\<rparr>,
          k + 3)"
proof -
  let ?args = "(default_args 1)\<lparr>arg_degree := d, arg_test_size := t\<rparr>"
  let ?x = "[1 / real (k + 2)]" and ?y = "[1 / real (k + 3)]"
  let ?F = "FrankeFunction_point (1 / real (k + 2)) (1 / real (k + 3))"
  have c: "sampler_contract counter_draw" by (rule counter_draw_contract)
  have a: "0 \<le> arg_N ?args" "arg_random_noise ?args" "arg_scale_data ?args"
    "0 \<le> arg_noise_level ?args"
    by (simp_all add: default_args_def DEFAULT_NOISE_LEVEL_def)
  have sp: "sample_points counter_draw (arg_N ?args) k = (Inr (?x, ?y), k + 2)"
    using sample_points_run [OF c a(1), of k]
    by (simp add: default_args_def counter_draw_def upt_rec add.commute)
  have dn: "counter_draw (Normal 0 (arg_noise_level ?args)) (length ?x) (k + 2) = ([1 / 5], k + 3)"
    using assms by (simp add: default_args_def DEFAULT_NOISE_LEVEL_def counter_draw_def upt_rec)
  from FrankeData_init_noisy_scaled [OF c a sp dn, of scale_data]
  have init: "FrankeData_init scale_data counter_draw ?args k =
           (case scale_data (map2 (+) (map2 FrankeFunction_point ?x ?y) [1 / 5]) of
              Inl e \<Rightarrow> (Inl e, k + 3)
            | Inr z' \<Rightarrow>
                (case store_data (arg_degree ?args) ?x ?y z' (arg_test_size ?args) of
                   Inl e \<Rightarrow> (Inl e, k + 3)
                 | Inr obj \<Rightarrow> (Inr obj, k + 3)))"
    by blast
  from FrankeFunction_point_lower [of "1 / real (k + 2)" "1 / real (k + 3)"]
  have "?F + 1 / 5 \<noteq> 0" by simp
  then have sc: "scale_data (map2 (+) (map2 FrankeFunction_point ?x ?y) [1 / 5]) = Inr [1]"
    by (simp add: scale_data_def)
  from design_matrix_succeeds [of ?x ?y d]
  obtain X where X: "generate_design_matrix d ?x ?y = Inr X" by auto
  then have st: "store_data (arg_degree ?args) ?x ?y [1] (arg_test_size ?args) =
      Inr \<lparr>self_degree = d, self_X = projr (generate_design_matrix d ?x ?y), self_z = [1],
           self_test_size = t, self_stratify = False\<rparr>"
    by (simp add: store_data_def)
  from init sc st show ?thesis by simp
qed

lemma example_run:
  "sweep_loop scale_data (lift_draw counter_draw) (logged example_estimator) () example_config
     degrees ([], [], [], []) (0, []) =
   (Inr ([3, 3, 3, 3, 3, 3, 3, 3, 3, 3, 3, 3, 3, 3, 3],
         [4, 4, 4, 4, 4, 4, 4, 4, 4, 4, 4, 4, 4, 4, 4],
         [1, 2, 3, 4, 5, 6, 7, 8, 9, 10, 11, 12, 13, 14, 15],
         [2, 2, 2, 2, 2, 2, 2, 2, 2, 2, 2, 2, 2, 2, 2]),
    (60, map (\<lambda>d. (d, Inr (real_of_int d, 2, 3, 4))) degrees))"
  by (simp add: degrees_list example_config_def FrankeData_init_lift counter_constructor
      logged_def example_estimator_def)


lemma failing_run:
  "bias_variance_analysis_ols scale_data (lift_draw counter_draw) (logged failing_estimator) ()
     (\<lambda>v. str_int \<lfloor>v\<rfloor>) example_config (0, []) example_files =
   (Inl (Raised ''singular matrix''),
    (12, [(1, Inr (1, 2, 3, 4)), (2, Inr (2, 2, 3, 4)), (3, Inl (Raised ''singular matrix''))]),
    example_files)"
  by (simp add: bias_variance_analysis_ols_def degrees_list example_config_def
      FrankeData_init_lift counter_constructor logged_def failing_estimator_def)

theorem sweep_writes_complete_table_or_nothing_witness:
  "bias_variance_analysis_ols scale_data (lift_draw counter_draw) (logged failing_estimator) ()
     (\<lambda>v. str_int \<lfloor>v\<rfloor>) example_config (0, []) example_files =
   (Inl (Raised ''singular matrix''),
    (12, [(1, Inr (1, 2, 3, 4)), (2, Inr (2, 2, 3, 4)), (3, Inl (Raised ''singular matrix''))]),
    example_files) \<and>
   bias_variance_analysis_ols scale_data counter_draw failing_estimator ()
     (\<lambda>v. str_int \<lfloor>v\<rfloor>) example_config 0 example_files =
   (Inl (Raised ''singular matrix''), 12, example_files)"
  using sweep_writes_complete_table_or_nothing [OF failing_run] failing_run by simp

theorem sweep_aligns_results_with_degrees_witness:
  "sweep_loop scale_data (lift_draw counter_draw) (logged example_estimator) () example_config
     degrees ([], [], [], []) (0, []) =
   (Inr ([3, 3, 3, 3, 3, 3, 3, 3, 3, 3, 3, 3, 3, 3, 3],
         [4, 4, 4, 4, 4, 4, 4, 4, 4, 4, 4, 4, 4, 4, 4],
         [1, 2, 3, 4, 5, 6, 7, 8, 9, 10, 11, 12, 13, 14, 15],
         [2, 2, 2, 2, 2, 2, 2, 2, 2, 2, 2, 2, 2, 2, 2]),
    (60, map (\<lambda>d. (d, Inr (real_of_int d, 2, 3, 4))) degrees)) \<and>
   bias_variance_analysis_ols scale_data counter_draw example_estimator ()
     (\<lambda>v. str_int \<lfloor>v\<rfloor>) example_config 0 example_files =
   (Inr (), 60,
    example_files\<lparr>files := (files example_files)(''output/data/bias_variance_ols.csv'' \<mapsto>
       concat (map (\<lambda>line. line @ [CHR ''\<newline>''])
         (''degree,mse_train,mse_test,bias,variance'' #
          map (\<lambda>d. str_int d @ '',3,4,'' @ str_int d @ '',2'') degrees)))\<rparr>)"
proof -
  have digits: "str_int 2 = ''2''" "str_int 3 = ''3''" "str_int 4 = ''4''"
    by (simp_all add: str_int_def str_nat.simps)
  have dir: "''output/data'' \<in> directories example_files"
    by (simp add: example_files_def)
  let ?fmt = "\<lambda>v :: real. str_int \<lfloor>v\<rfloor>"
  let ?mt = "[3, 3, 3, 3, 3, 3, 3, 3, 3, 3, 3, 3, 3, 3, 3 :: real]"
  let ?ms = "[4, 4, 4, 4, 4, 4, 4, 4, 4, 4, 4, 4, 4, 4, 4 :: real]"
  let ?b = "[1, 2, 3, 4, 5, 6, 7, 8, 9, 10, 11, 12, 13, 14, 15 :: real]"
  let ?v = "[2, 2, 2, 2, 2, 2, 2, 2, 2, 2, 2, 2, 2, 2, 2 :: real]"
  have rows: "map (\<lambda>i. str_int (int i + 1) @ '','' @ ?fmt (?mt ! i) @ '','' @ ?fmt (?ms ! i)
                    @ '','' @ ?fmt (?b ! i) @ '','' @ ?fmt (?v ! i)) [0..<15]
      = map (\<lambda>d. str_int d @ '',3,4,'' @ str_int d @ '',2'') degrees"
    by (simp add: degrees_list upt_rec digits)
  from sweep_aligns_results_with_degrees [OF example_run, of ?fmt example_files] dir
  have "bias_variance_analysis_ols scale_data counter_draw example_estimator () ?fmt
          example_config 0 example_files =
        (Inr (), 60,
         example_files\<lparr>files := (files example_files)(''output/data/bias_variance_ols.csv'' \<mapsto>
            concat (map (\<lambda>line. line @ [CHR ''\<newline>''])
              (''degree,mse_train,mse_test,bias,variance'' #
               map (\<lambda>i. str_int (int i + 1) @ '','' @ ?fmt (?mt ! i) @ '','' @ ?fmt (?ms ! i)
                    @ '','' @ ?fmt (?b ! i) @ '','' @ ?fmt (?v ! i)) [0..<15])))\<rparr>)"
    by simp
  with example_run show ?thesis by (simp only: rows)
qed

end
